theory Spec2Isabelle
  imports Complex_Main "HOL-Library.Word"
begin

section \<open>Data model of the denoiser worker\<close>

text \<open>
  The eight neighbour directions of \<^verbatim>\<open>enum MessageType\<close>, in the order of their numeric
  values 0..7, which is the order in which every \<^verbatim>\<open>for (direction = 0; ...)\<close> loop
  of the source visits them.
\<close>

datatype direction =
  TOP | RIGHT | BOTTOM | LEFT | TOP_RIGHT | BOTTOM_RIGHT | BOTTOM_LEFT | TOP_LEFT

definition directions :: "direction list" where
  "directions = [TOP, RIGHT, BOTTOM, LEFT, TOP_RIGHT, BOTTOM_RIGHT, BOTTOM_LEFT, TOP_LEFT]"

text \<open>
  A pixel is a C \<^verbatim>\<open>char\<close>, read as a signed byte (\<^verbatim>\<open>(int)subImage[i][j]\<close> is \<open>sint\<close>).
  A tile is the array of rows \<^verbatim>\<open>char **subImage\<close>.
\<close>

type_synonym pixel = "8 word"
type_synonym tile = "pixel list list"

text \<open>
  The type \<^verbatim>\<open>double\<close> and its arithmetic belong to the C implementation and its
  mathematical library, not to the program. They are parameters: \<open>'d\<close> is the type of
  the \<^verbatim>\<open>double\<close> values, and the operations the program uses on them are the conversion
  of an \<^verbatim>\<open>int\<close>, \<^verbatim>\<open>*\<close>, binary \<^verbatim>\<open>-\<close>, \<^verbatim>\<open>/\<close>, \<^verbatim>\<open>log\<close> and \<^verbatim>\<open><=\<close>, each with
  whatever rounding, infinities and NaNs the platform gives it.
\<close>

record 'd arith =
  d_of_int :: "int \<Rightarrow> 'd"
  d_mul :: "'d \<Rightarrow> 'd \<Rightarrow> 'd"
  d_sub :: "'d \<Rightarrow> 'd \<Rightarrow> 'd"
  d_div :: "'d \<Rightarrow> 'd \<Rightarrow> 'd"
  d_log :: "'d \<Rightarrow> 'd"
  d_le :: "'d \<Rightarrow> 'd \<Rightarrow> bool"

text \<open>
  What the worker receives from the coordinator before it starts, together with its
  command-line parameters: tile dimensions, the neighbour table (rank, or -1 for an
  absent neighbour), the observed tile, beta and gamma. \<^verbatim>\<open>RAND_MAX\<close> belongs to the C
  library and is a parameter, as is the arithmetic of \<^verbatim>\<open>double\<close>. Dimensions,
  positions and ranks are C \<^verbatim>\<open>int\<close>s that stay far from the 32-bit bounds; they are
  unbounded integers here.
\<close>

record 'd config =
  rows :: int
  columns :: int
  neighbours :: "direction \<Rightarrow> int"
  initialSubImage :: tile
  beta :: 'd
  gammaValue :: 'd
  RAND_MAX :: nat
  arithmetic :: "'d arith"

text \<open>
  The calls the worker makes to the message-passing library, in program order. The
  destination or source rank of a message in direction \<open>d\<close> is \<open>neighbours d\<close>. A send
  carries the value that its buffer holds when the call is made.
  \<open>Proposal\<close>, \<open>Service\<close> and \<open>TestFinished\<close> mark the start of a sampler iteration,
  a call of \<^verbatim>\<open>answerAll\<close> from the termination loop, and the two flags that one call of
  \<^verbatim>\<open>testFinishedAll\<close> obtained from \<^verbatim>\<open>MPI_Testall\<close>.
\<close>

datatype event =
    PostQuestionRecv direction
  | WaitReply direction
  | SendAnswer direction int
  | SendQuestion direction int
  | PostAnswerRecv direction
  | Proposal int int
  | SendFinished direction
  | PostFinishedRecv direction
  | TestFinished bool bool
  | Service
  | SendFinalRow int "pixel list"

text \<open>
  The mutable state of \<^verbatim>\<open>slave\<close>: the current tile, the live prefix
  \<^verbatim>\<open>[0, askReqResCount)\<close> of the ask arrays (each entry is the direction asked and the
  position sent), the per-direction reply handle \<^verbatim>\<open>answerResponses[d]\<close> (\<open>True\<close> when it
  is not \<^verbatim>\<open>NULL\<close>), the number of posted FINISHED pairs, and the calls made so far.
\<close>

record worker =
  subImage :: tile
  askRequests :: "(direction \<times> int) list"
  answerResponses :: "direction \<Rightarrow> bool"
  finishedReqResCount :: nat
  trace :: "event list"

definition askReqResCount :: "worker \<Rightarrow> nat" where
  "askReqResCount s = length (askRequests s)"

definition emit :: "event \<Rightarrow> worker \<Rightarrow> worker" where
  "emit e s = s\<lparr>trace := trace s @ [e]\<rparr>"

section \<open>Neighbour sums\<close>

text \<open>
  \<^verbatim>\<open>summer\<close>: the two nested \<^verbatim>\<open>for\<close> loops over \<^verbatim>\<open>rowCenter - 1 .. rowCenter + 1\<close> and
  \<^verbatim>\<open>columnCenter - 1 .. columnCenter + 1\<close>. The accumulator is a C \<^verbatim>\<open>int\<close>; it adds at
  most eight signed bytes, so it cannot overflow and is an \<open>int\<close> here.
\<close>

definition summer_row :: "tile \<Rightarrow> int \<Rightarrow> int \<Rightarrow> int \<Rightarrow> int \<Rightarrow> int \<Rightarrow> int" where
  "summer_row img cols rowCenter columnCenter i acc =
     fold (\<lambda>j sum.
        if 0 \<le> j \<and> j < cols then
          (if i \<noteq> rowCenter \<or> j \<noteq> columnCenter then sum + sint (img ! nat i ! nat j) else sum)
        else sum)
      [columnCenter - 1 .. columnCenter + 1] acc"

definition summer :: "tile \<Rightarrow> int \<Rightarrow> int \<Rightarrow> int \<Rightarrow> int \<Rightarrow> int" where
  "summer img rws cols rowCenter columnCenter =
     fold (\<lambda>i sum.
        if 0 \<le> i \<and> i < rws then summer_row img cols rowCenter columnCenter i sum else sum)
      [rowCenter - 1 .. rowCenter + 1] 0"

section \<open>Answering the neighbours' questions\<close>

text \<open>The two \<^verbatim>\<open>switch (direction)\<close> statements of \<^verbatim>\<open>answerAll\<close>.\<close>

fun rowCenter_of :: "int \<Rightarrow> int \<Rightarrow> direction \<Rightarrow> int" where
  "rowCenter_of rws position TOP = -1"
| "rowCenter_of rws position TOP_LEFT = -1"
| "rowCenter_of rws position TOP_RIGHT = -1"
| "rowCenter_of rws position BOTTOM = rws"
| "rowCenter_of rws position BOTTOM_LEFT = rws"
| "rowCenter_of rws position BOTTOM_RIGHT = rws"
| "rowCenter_of rws position LEFT = position"
| "rowCenter_of rws position RIGHT = position"

fun columnCenter_of :: "int \<Rightarrow> int \<Rightarrow> direction \<Rightarrow> int" where
  "columnCenter_of cols position LEFT = -1"
| "columnCenter_of cols position TOP_LEFT = -1"
| "columnCenter_of cols position BOTTOM_LEFT = -1"
| "columnCenter_of cols position RIGHT = cols"
| "columnCenter_of cols position TOP_RIGHT = cols"
| "columnCenter_of cols position BOTTOM_RIGHT = cols"
| "columnCenter_of cols position TOP = position"
| "columnCenter_of cols position BOTTOM = position"

text \<open>
  \<^verbatim>\<open>initializeAnswers\<close>: for every existing neighbour, post the receive for its next
  question and clear the reply handle. Slots of absent neighbours stay as they were
  (uninitialised in the source, and never read).
\<close>

definition initializeAnAnswer :: "direction \<Rightarrow> worker \<Rightarrow> worker" where
  "initializeAnAnswer d s = emit (PostQuestionRecv d) s"

definition initializeAnswers :: "'d config \<Rightarrow> worker \<Rightarrow> worker" where
  "initializeAnswers cfg s =
     fold (\<lambda>d s.
        if neighbours cfg d = -1 then s
        else (initializeAnAnswer d s)\<lparr>answerResponses := (answerResponses s)(d := False)\<rparr>)
      directions s"

text \<open>
  One round of the loop body of \<^verbatim>\<open>answerAll\<close>. \<open>arrivals d\<close> is what \<^verbatim>\<open>MPI_Test\<close> finds
  on the standing receive of direction \<open>d\<close>: \<open>None\<close> when no question has arrived
  (\<^verbatim>\<open>flag = 0\<close>), \<open>Some position\<close> when one has.
\<close>

definition answer_direction :: "'d config \<Rightarrow> (direction \<Rightarrow> int option) \<Rightarrow> direction \<Rightarrow> worker \<Rightarrow> worker" where
  "answer_direction cfg arrivals d s =
     (if neighbours cfg d = -1 then s
      else case arrivals d of
        None \<Rightarrow> s
      | Some position \<Rightarrow>
          let s1 = initializeAnAnswer d s;
              s2 = (if answerResponses s1 d
                    then (emit (WaitReply d) s1)\<lparr>answerResponses := (answerResponses s1)(d := False)\<rparr>
                    else s1);
              rowCenter = rowCenter_of (rows cfg) position d;
              columnCenter = columnCenter_of (columns cfg) position d;
              sum = summer (subImage s2) (rows cfg) (columns cfg) rowCenter columnCenter
          in (emit (SendAnswer d sum) s2)\<lparr>answerResponses := (answerResponses s2)(d := True)\<rparr>)"

definition answerAll :: "'d config \<Rightarrow> (direction \<Rightarrow> int option) \<Rightarrow> worker \<Rightarrow> worker" where
  "answerAll cfg arrivals s = fold (answer_direction cfg arrivals) directions s"

section \<open>Asking the neighbours\<close>

text \<open>
  What can stop a run of the model: the script of environment inputs ends while the
  worker is still running (\<open>Unfinished\<close>), or the source divides by zero.
\<close>

datatype fault = Unfinished | DivisionByZero

text \<open>
  \<^verbatim>\<open>askAsync\<close>: nothing for an absent neighbour; otherwise the non-blocking send of the
  position, the non-blocking receive of the answer into slot \<^verbatim>\<open>askReqResCount\<close>, and the
  increment of \<^verbatim>\<open>askReqResCount\<close>.
\<close>

definition askAsync :: "'d config \<Rightarrow> direction \<Rightarrow> int \<Rightarrow> worker \<Rightarrow> worker" where
  "askAsync cfg d position s =
     (if neighbours cfg d = -1 then s
      else (emit (PostAnswerRecv d) (emit (SendQuestion d position) s))
             \<lparr>askRequests := askRequests s @ [(d, position)]\<rparr>)"

text \<open>The chain of \<^verbatim>\<open>if\<close> statements of \<^verbatim>\<open>slave\<close> that follows the local sum.\<close>

definition ask_neighbours :: "'d config \<Rightarrow> int \<Rightarrow> int \<Rightarrow> worker \<Rightarrow> worker" where
  "ask_neighbours cfg rowPosition columnPosition s =
     (let s1 = (if rowPosition = 0 then
                  let t1 = askAsync cfg TOP columnPosition s;
                      t2 = (if columnPosition = 0 then askAsync cfg TOP_LEFT 0 t1 else t1)
                  in (if columnPosition = columns cfg - 1 then askAsync cfg TOP_RIGHT 0 t2 else t2)
                else s);
          s2 = (if rowPosition = rows cfg - 1 then
                  let b1 = askAsync cfg BOTTOM columnPosition s1;
                      b2 = (if columnPosition = 0 then askAsync cfg BOTTOM_LEFT 0 b1 else b1)
                  in (if columnPosition = columns cfg - 1 then askAsync cfg BOTTOM_RIGHT 0 b2 else b2)
                else s1);
          s3 = (if columnPosition = 0 then askAsync cfg LEFT rowPosition s2 else s2)
      in (if columnPosition = columns cfg - 1 then askAsync cfg RIGHT rowPosition s3 else s3))"

text \<open>
  One pass of a waiting loop, as the environment decides it: the flags the two
  \<^verbatim>\<open>MPI_Testall\<close> calls return, and what the \<^verbatim>\<open>MPI_Test\<close> calls of \<^verbatim>\<open>answerAll\<close> find
  if the loop body runs.
\<close>

record poll =
  requestResult :: bool
  responseResult :: bool
  arrivals :: "direction \<Rightarrow> int option"

text \<open>\<^verbatim>\<open>testAskAll\<close>: both flags start at 1 and are only tested when something is outstanding.\<close>

definition testAskAll :: "worker \<Rightarrow> poll \<Rightarrow> bool" where
  "testAskAll s p =
     (let (req, resp) = (if askReqResCount s > 0 then (requestResult p, responseResult p)
                         else (True, True))
      in req \<and> resp)"

text \<open>
  \<^verbatim>\<open>while (!testAskAll(...)) answerAll(...)\<close>. With nothing outstanding the test
  succeeds without looking at the environment.
\<close>

fun await_answers :: "'d config \<Rightarrow> poll list \<Rightarrow> worker \<Rightarrow> fault + worker" where
  "await_answers cfg [] s = (if askReqResCount s = 0 then Inr s else Inl Unfinished)"
| "await_answers cfg (p # ps) s =
     (if testAskAll s p then Inr s
      else await_answers cfg ps (answerAll cfg (arrivals p) s))"

text \<open>
  \<^verbatim>\<open>askResult\<close>: add up the answer slots from the last one down to slot 0 and reset the
  count. \<open>answers d\<close> is the value the neighbour in direction \<open>d\<close> replied with.
\<close>

definition askResult :: "(direction \<Rightarrow> int) \<Rightarrow> worker \<Rightarrow> int \<times> worker" where
  "askResult answers s =
     (fold (\<lambda>(d, position) result. result + answers d) (rev (askRequests s)) 0,
      s\<lparr>askRequests := []\<rparr>)"

section \<open>The sampler\<close>

text \<open>
  \<^verbatim>\<open>randomProbability\<close>: \<^verbatim>\<open>((double)rand()) / RAND_MAX\<close>, for the value \<open>k\<close> that \<^verbatim>\<open>rand()\<close>
  returned. Both operands are converted to \<^verbatim>\<open>double\<close> and divided there.
\<close>

definition randomProbability :: "'d config \<Rightarrow> nat \<Rightarrow> 'd" where
  "randomProbability cfg k =
     d_div (arithmetic cfg) (d_of_int (arithmetic cfg) (int k))
       (d_of_int (arithmetic cfg) (int (RAND_MAX cfg)))"

text \<open>The test \<^verbatim>\<open>log(u) <= deltaE\<close>, with the platform's \<^verbatim>\<open>log\<close> and \<^verbatim>\<open><=\<close>.\<close>

definition log_le :: "'d config \<Rightarrow> 'd \<Rightarrow> 'd \<Rightarrow> bool" where
  "log_le cfg u deltaE = d_le (arithmetic cfg) (d_log (arithmetic cfg) u) deltaE"

text \<open>
  The expression for \<^verbatim>\<open>deltaE\<close>, in C's order of evaluation:
  \<^verbatim>\<open>((-2 * gammaValue) * observed) * current - ((2 * beta) * current) * sum\<close>, where the
  two pixels are promoted to \<^verbatim>\<open>int\<close> and every \<^verbatim>\<open>int\<close> operand is converted to
  \<^verbatim>\<open>double\<close> before its multiplication. Each operation of the expression is one
  operation of the parameter: no multiplication is fused with the subtraction.
\<close>

definition deltaE_of :: "'d config \<Rightarrow> pixel \<Rightarrow> pixel \<Rightarrow> int \<Rightarrow> 'd" where
  "deltaE_of cfg observed current nsum =
     (let a = arithmetic cfg in
      d_sub a
        (d_mul a (d_mul a (d_mul a (d_of_int a (- 2)) (gammaValue cfg))
                            (d_of_int a (sint observed)))
                 (d_of_int a (sint current)))
        (d_mul a (d_mul a (d_mul a (d_of_int a 2) (beta cfg))
                            (d_of_int a (sint current)))
                 (d_of_int a nsum)))"

definition flip :: "int \<Rightarrow> int \<Rightarrow> worker \<Rightarrow> worker" where
  "flip r c s =
     s\<lparr>subImage := (subImage s)[nat r := (subImage s ! nat r)[nat c := - (subImage s ! nat r ! nat c)]]\<rparr>"

text \<open>
  The inputs of one iteration of the sampler: the three values \<^verbatim>\<open>rand()\<close> returns, the
  passes of the waiting loop, and the answers of the neighbours.
\<close>

record iter_env =
  rand_row :: nat
  rand_column :: nat
  polls :: "poll list"
  answers :: "direction \<Rightarrow> int"
  rand_accept :: nat

text \<open>
  The pixel that an iteration samples: \<^verbatim>\<open>rand() % rows\<close> and \<^verbatim>\<open>rand() % columns\<close>.
\<close>

definition rowPosition_of :: "'d config \<Rightarrow> iter_env \<Rightarrow> int" where
  "rowPosition_of cfg e = int (rand_row e) mod rows cfg"

definition columnPosition_of :: "'d config \<Rightarrow> iter_env \<Rightarrow> int" where
  "columnPosition_of cfg e = int (rand_column e) mod columns cfg"

text \<open>
  The body of \<^verbatim>\<open>while (iterations--)\<close>. \<^verbatim>\<open>rand() % rows\<close> divides by zero when the tile
  is empty; the dimensions the coordinator sends are never negative. The progress line
  printed once in a million iterations is left out.
\<close>

definition iteration :: "'d config \<Rightarrow> iter_env \<Rightarrow> worker \<Rightarrow> fault + worker" where
  "iteration cfg e s =
     (if rows cfg = 0 \<or> columns cfg = 0 then Inl DivisionByZero
      else
        let rowPosition = rowPosition_of cfg e;
            columnPosition = columnPosition_of cfg e;
            s0 = emit (Proposal rowPosition columnPosition) s;
            local = summer (subImage s0) (rows cfg) (columns cfg) rowPosition columnPosition;
            s1 = ask_neighbours cfg rowPosition columnPosition s0
        in case await_answers cfg (polls e) s1 of
             Inl f \<Rightarrow> Inl f
           | Inr s2 \<Rightarrow>
               let (remote, s3) = askResult (answers e) s2;
                   sum = local + remote;
                   deltaE = deltaE_of cfg (initialSubImage cfg ! nat rowPosition ! nat columnPosition)
                              (subImage s3 ! nat rowPosition ! nat columnPosition) sum
               in Inr (if log_le cfg (randomProbability cfg (rand_accept e)) deltaE
                       then flip rowPosition columnPosition s3 else s3))"

text \<open>\<^verbatim>\<open>while (iterations--)\<close>, one environment record per iteration.\<close>

fun sampler :: "'d config \<Rightarrow> nat \<Rightarrow> iter_env list \<Rightarrow> worker \<Rightarrow> fault + worker" where
  "sampler cfg 0 es s = Inr s"
| "sampler cfg (Suc n) [] s = Inl Unfinished"
| "sampler cfg (Suc n) (e # es) s =
     (case iteration cfg e s of Inl f \<Rightarrow> Inl f | Inr s' \<Rightarrow> sampler cfg n es s')"

section \<open>Termination handshake\<close>

text \<open>
  \<^verbatim>\<open>sendFinishedAll\<close>: one non-blocking FINISHED send and one non-blocking FINISHED
  receive for every existing neighbour.
\<close>

definition sendFinishedAll :: "'d config \<Rightarrow> worker \<Rightarrow> worker" where
  "sendFinishedAll cfg s =
     fold (\<lambda>d s.
        if neighbours cfg d \<noteq> -1
        then (emit (PostFinishedRecv d) (emit (SendFinished d) s))
               \<lparr>finishedReqResCount := finishedReqResCount s + 1\<rparr>
        else s)
      directions s"

text \<open>
  \<^verbatim>\<open>while (!testFinishedAll(...)) answerAll(...)\<close>. \<^verbatim>\<open>testFinishedAll\<close> asks
  \<^verbatim>\<open>MPI_Testall\<close> twice when at least one pair was posted, and is true otherwise.
\<close>

fun await_finished :: "'d config \<Rightarrow> poll list \<Rightarrow> worker \<Rightarrow> fault + worker" where
  "await_finished cfg [] s = (if finishedReqResCount s > 0 then Inl Unfinished else Inr s)"
| "await_finished cfg (p # ps) s =
     (if finishedReqResCount s > 0 then
        let s1 = emit (TestFinished (requestResult p) (responseResult p)) s
        in if requestResult p \<and> responseResult p then Inr s1
           else await_finished cfg ps (answerAll cfg (arrivals p) (emit Service s1))
      else Inr s)"

text \<open>The final loop: every row of the tile goes back to the coordinator.\<close>

definition sendFinalRows :: "'d config \<Rightarrow> worker \<Rightarrow> worker" where
  "sendFinalRows cfg s =
     fold (\<lambda>i s. emit (SendFinalRow i (subImage s ! nat i)) s) [0 .. rows cfg - 1] s"

definition finish :: "'d config \<Rightarrow> poll list \<Rightarrow> worker \<Rightarrow> fault + worker" where
  "finish cfg ps s =
     (case await_finished cfg ps (sendFinishedAll cfg s) of
        Inl f \<Rightarrow> Inl f
      | Inr s' \<Rightarrow> Inr (sendFinalRows cfg s'))"

section \<open>The worker\<close>

definition TOTAL_ITERATIONS :: int where
  "TOTAL_ITERATIONS = 5000000"

text \<open>
  The inputs of a whole run: what the handle array holds before it is initialised, the
  inputs of the iterations, and the passes of the termination loop.
\<close>

record run_env =
  uninitialised :: "direction \<Rightarrow> bool"
  iteration_envs :: "iter_env list"
  finish_polls :: "poll list"

text \<open>
  The state of \<^verbatim>\<open>slave\<close> once the tile has been received and copied: the current tile
  equals the observed one, both counts are zero, and the handle array holds whatever
  the stack held.
\<close>

definition start :: "'d config \<Rightarrow> (direction \<Rightarrow> bool) \<Rightarrow> worker" where
  "start cfg u =
     \<lparr>subImage = initialSubImage cfg, askRequests = [], answerResponses = u,
      finishedReqResCount = 0, trace = []\<rparr>"

text \<open>
  \<^verbatim>\<open>slave\<close>. A worker exists only when \<open>world_size \<ge> 2\<close>; the quotient is then not
  negative and C's truncating division agrees with \<open>div\<close>.
\<close>

definition slave :: "int \<Rightarrow> 'd config \<Rightarrow> run_env \<Rightarrow> fault + worker" where
  "slave world_size cfg env =
     (if world_size - 1 = 0 then Inl DivisionByZero
      else
        let iterations = TOTAL_ITERATIONS div (world_size - 1);
            s = initializeAnswers cfg (start cfg (uninitialised env))
        in case sampler cfg (nat iterations) (iteration_envs env) s of
             Inl f \<Rightarrow> Inl f
           | Inr s' \<Rightarrow> finish cfg (finish_polls env) s')"

section \<open>The coordinator\<close>

text \<open>
  How the coordinator's process ends: \<^verbatim>\<open>main\<close> returns a code, the main thread leaves
  through \<^verbatim>\<open>pthread_exit\<close> (the process then ends with status 0), or an integer
  division by zero traps.
\<close>

datatype ending = Returns int | ExitsThread | Traps

text \<open>
  The blocking messages of the coordinator: an integer sent to a rank under a tag, a row
  of the image sent to a rank under a tag, a final row received from a rank under a tag.
\<close>

datatype master_call =
    SendInt int int int
  | SendImageRow int int int
  | RecvFinalRow int int int

record report =
  errors :: "string list"
  calls :: "master_call list"
  ending :: ending

definition N :: int where
  "N = 8"

definition ROWS :: int where
  "ROWS = 20"

definition COLUMNS :: int where
  "COLUMNS = 21"

definition IMAGE_START :: int where
  "IMAGE_START = 1000"

definition FINAL_IMAGE_START :: int where
  "FINAL_IMAGE_START = 60000"

fun tag_of :: "direction \<Rightarrow> int" where
  "tag_of TOP = 0"
| "tag_of RIGHT = 1"
| "tag_of BOTTOM = 2"
| "tag_of LEFT = 3"
| "tag_of TOP_RIGHT = 4"
| "tag_of BOTTOM_RIGHT = 5"
| "tag_of BOTTOM_LEFT = 6"
| "tag_of TOP_LEFT = 7"

text \<open>
  The body of the loop over \<^verbatim>\<open>slaveRank\<close>: the tile dimensions and the eight neighbour
  ranks of one worker. All operands are non-negative, so \<open>mod\<close> is C's \<^verbatim>\<open>%\<close>.
\<close>

definition topology_calls :: "int \<Rightarrow> int \<Rightarrow> int \<Rightarrow> int \<Rightarrow> int \<Rightarrow> master_call list" where
  "topology_calls slaveCount slavesPerRow rowsPerSlave columnsPerSlave slaveRank =
     (let top = (if slaveRank \<le> slavesPerRow then -1 else slaveRank - slavesPerRow);
          right = (if slaveRank mod slavesPerRow = 0 then -1 else slaveRank + 1);
          bottom = (if slaveRank > slaveCount - slavesPerRow then -1 else slaveRank + slavesPerRow);
          left = (if (slaveRank - 1) mod slavesPerRow = 0 then -1 else slaveRank - 1);
          topRight = (if top = -1 \<or> right = -1 then -1 else slaveRank - slavesPerRow + 1);
          bottomRight = (if bottom = -1 \<or> right = -1 then -1 else slaveRank + slavesPerRow + 1);
          bottomLeft = (if bottom = -1 \<or> left = -1 then -1 else slaveRank + slavesPerRow - 1);
          topLeft = (if top = -1 \<or> left = -1 then -1 else slaveRank - slavesPerRow - 1)
      in [SendInt slaveRank ROWS rowsPerSlave,
          SendInt slaveRank COLUMNS columnsPerSlave,
          SendInt slaveRank (tag_of TOP) top,
          SendInt slaveRank (tag_of RIGHT) right,
          SendInt slaveRank (tag_of BOTTOM) bottom,
          SendInt slaveRank (tag_of LEFT) left,
          SendInt slaveRank (tag_of TOP_RIGHT) topRight,
          SendInt slaveRank (tag_of BOTTOM_RIGHT) bottomRight,
          SendInt slaveRank (tag_of BOTTOM_LEFT) bottomLeft,
          SendInt slaveRank (tag_of TOP_LEFT) topLeft])"

text \<open>
  \<^verbatim>\<open>master\<close>. \<^verbatim>\<open>rowCount\<close> and \<^verbatim>\<open>columnCount\<close> are initialised to zero and never
  assigned. \<open>threads_created\<close> says whether every \<^verbatim>\<open>pthread_create\<close> succeeded; what
  the auxiliary threads do is left out. The two divisions by \<^verbatim>\<open>slaveCount\<close> and by
  \<^verbatim>\<open>rowsPerSlave\<close> trap when the divisor is zero; the loop over the \<open>N\<close> rows of the
  matrix divides in its first pass. Output to the standard output and to the output
  file is left out.
\<close>

definition master :: "int \<Rightarrow> bool \<Rightarrow> report" where
  "master world_size threads_created =
     (let rowCount = 0; columnCount = 0 in
      if \<not> threads_created
      then \<lparr>errors = [''pthread_create failed!''], calls = [], ending = Returns 1\<rparr>
      else
        let slaveCount = world_size - 1; slavesPerRow = 1 in
        if slaveCount = 0 then \<lparr>errors = [], calls = [], ending = Traps\<rparr>
        else
          let rowsPerSlave = rowCount div slaveCount;
              columnsPerSlave = columnCount;
              errs = (if rowsPerSlave * slaveCount \<noteq> rowCount
                      then [''Error (Row Mode): rowCount is not divisible by the slave count'']
                      else []);
              topology = concat (map (topology_calls slaveCount slavesPerRow rowsPerSlave columnsPerSlave)
                                   [1 .. slaveCount])
          in if 0 < N \<and> rowsPerSlave = 0
             then \<lparr>errors = errs, calls = topology, ending = Traps\<rparr>
             else
               let image = map (\<lambda>rowNumber.
                              SendImageRow ((rowNumber div rowsPerSlave) * slavesPerRow + 1)
                                (IMAGE_START + rowNumber mod rowsPerSlave) rowNumber)
                             [0 .. N - 1];
                   final = map (\<lambda>rowNumber.
                              RecvFinalRow ((rowNumber div rowsPerSlave) * slavesPerRow + 1)
                                (FINAL_IMAGE_START + rowNumber mod rowsPerSlave) rowNumber)
                             [0 .. rowCount - 1]
               in \<lparr>errors = errs, calls = topology @ image @ final, ending = ExitsThread\<rparr>)"

text \<open>
  The coordinator's branch of \<^verbatim>\<open>main\<close>: the argument check, then \<^verbatim>\<open>master\<close>; a
  non-zero return value of \<^verbatim>\<open>master\<close> is reported and returned.
\<close>

definition main_master :: "int \<Rightarrow> int \<Rightarrow> bool \<Rightarrow> report" where
  "main_master argc world_size threads_created =
     (if argc \<noteq> 5
      then \<lparr>errors = [''Please, run the program as denoiser <input> <output> <beta> <pi>''],
            calls = [], ending = Returns 1\<rparr>
      else
        let m = master world_size threads_created in
        case ending m of
          Returns error \<Rightarrow>
            (if error \<noteq> 0 then m\<lparr>errors := errors m @ [''Error in master'']\<rparr> else m)
        | ExitsThread \<Rightarrow> m
        | Traps \<Rightarrow> m)"

section \<open>Reading a run\<close>

text \<open>The ANSWER values sent towards direction \<open>D\<close>, in the order of sending.\<close>

fun answers_sent :: "direction \<Rightarrow> event list \<Rightarrow> int list" where
  "answers_sent D [] = []"
| "answers_sent D (SendAnswer d v # tr) = (if d = D then v # answers_sent D tr else answers_sent D tr)"
| "answers_sent D (e # tr) = answers_sent D tr"

text \<open>The QUESTION messages sent, as (direction, position), in the order of sending.\<close>

fun questions_sent :: "event list \<Rightarrow> (direction \<times> int) list" where
  "questions_sent [] = []"
| "questions_sent (SendQuestion d p # tr) = (d, p) # questions_sent tr"
| "questions_sent (e # tr) = questions_sent tr"

text \<open>The number of sampler iterations that a trace records.\<close>

fun proposals :: "event list \<Rightarrow> nat" where
  "proposals [] = 0"
| "proposals (Proposal r c # tr) = Suc (proposals tr)"
| "proposals (e # tr) = proposals tr"

text \<open>The iteration count that a run of the worker records, when the run ends.\<close>

definition run_proposals :: "fault + worker \<Rightarrow> fault + nat" where
  "run_proposals r = map_sum id (\<lambda>s. proposals (trace s)) r"

text \<open>
  The reply sends of direction \<open>D\<close> that have been posted and not yet waited for: an
  ANSWER send counts +1, the \<^verbatim>\<open>MPI_Wait\<close> on the reply handle counts -1.
\<close>

fun replies_in_flight :: "direction \<Rightarrow> event list \<Rightarrow> int" where
  "replies_in_flight D [] = 0"
| "replies_in_flight D (SendAnswer d v # tr) = (if d = D then 1 else 0) + replies_in_flight D tr"
| "replies_in_flight D (WaitReply d # tr) = replies_in_flight D tr - (if d = D then 1 else 0)"
| "replies_in_flight D (e # tr) = replies_in_flight D tr"

text \<open>The calls that post or reclaim a reply send.\<close>

fun reply_call :: "event \<Rightarrow> bool" where
  "reply_call (SendAnswer d v) = True"
| "reply_call (WaitReply d) = True"
| "reply_call e = False"

text \<open>The kinds of calls: those of \<^verbatim>\<open>answerAll\<close> and those of \<^verbatim>\<open>askAsync\<close>.\<close>

fun answering :: "event \<Rightarrow> bool" where
  "answering (PostQuestionRecv d) = True"
| "answering (WaitReply d) = True"
| "answering (SendAnswer d v) = True"
| "answering e = False"

fun asking :: "event \<Rightarrow> bool" where
  "asking (SendQuestion d p) = True"
| "asking (PostAnswerRecv d) = True"
| "asking e = False"


text \<open>The calls of the waiting loop of the termination handshake.\<close>

definition handshake_call :: "event \<Rightarrow> bool" where
  "handshake_call e = (answering e \<or> e = Service \<or> (\<exists>a b. e = TestFinished a b))"

text \<open>\<open>s'\<close> was reached from \<open>s\<close> by calls that all satisfy \<open>P\<close>.\<close>

definition extends :: "(event \<Rightarrow> bool) \<Rightarrow> worker \<Rightarrow> worker \<Rightarrow> bool" where
  "extends P s s' = (\<exists>X. trace s' = trace s @ X \<and> list_all P X)"

text \<open>
  The calls of \<^verbatim>\<open>askAsync\<close> that \<open>ask_neighbours\<close> makes for \<open>(r, c)\<close>, in program
  order, whether or not the neighbour exists.
\<close>

definition ask_calls :: "'d config \<Rightarrow> int \<Rightarrow> int \<Rightarrow> (direction \<times> int) list" where
  "ask_calls cfg r c =
     (if r = 0 then
        [(TOP, c)] @ (if c = 0 then [(TOP_LEFT, 0)] else [])
                   @ (if c = columns cfg - 1 then [(TOP_RIGHT, 0)] else [])
      else [])
     @ (if r = rows cfg - 1 then
          [(BOTTOM, c)] @ (if c = 0 then [(BOTTOM_LEFT, 0)] else [])
                        @ (if c = columns cfg - 1 then [(BOTTOM_RIGHT, 0)] else [])
        else [])
     @ (if c = 0 then [(LEFT, r)] else [])
     @ (if c = columns cfg - 1 then [(RIGHT, r)] else [])"

text \<open>
  The remote part of the neighbour sum of an iteration: the answers to the questions
  that the iteration posted for its pixel.
\<close>

definition remote_sum :: "'d config \<Rightarrow> iter_env \<Rightarrow> int" where
  "remote_sum cfg e =
     (\<Sum>(d, p)\<leftarrow>filter (\<lambda>(d, p). neighbours cfg d \<noteq> -1)
                  (ask_calls cfg (rowPosition_of cfg e) (columnPosition_of cfg e)). answers e d)"

section \<open>The statements of the specification\<close>

text \<open>
  The 3x3 window around a centre, without the centre and without every index outside
  \<open>[0, rows) \<times> [0, columns)\<close>.
\<close>

definition window :: "int \<Rightarrow> int \<Rightarrow> int \<Rightarrow> int \<Rightarrow> (int \<times> int) set" where
  "window rws cols rc cc =
     Set.filter (\<lambda>(i, j). (i, j) \<noteq> (rc, cc) \<and> 0 \<le> i \<and> i < rws \<and> 0 \<le> j \<and> j < cols)
       ({rc - 1 .. rc + 1} \<times> {cc - 1 .. cc + 1})"

text \<open>The table of virtual centres, as the specification words it.\<close>

definition spec_row_centre :: "int \<Rightarrow> int \<Rightarrow> direction \<Rightarrow> int" where
  "spec_row_centre rws p D =
     (if D \<in> {TOP, TOP_LEFT, TOP_RIGHT} then -1
      else if D \<in> {BOTTOM, BOTTOM_LEFT, BOTTOM_RIGHT} then rws
      else p)"

definition spec_column_centre :: "int \<Rightarrow> int \<Rightarrow> direction \<Rightarrow> int" where
  "spec_column_centre cols p D =
     (if D \<in> {LEFT, TOP_LEFT, BOTTOM_LEFT} then -1
      else if D \<in> {RIGHT, TOP_RIGHT, BOTTOM_RIGHT} then cols
      else p)"

text \<open>
  The questions that the specification lists for a sampled pixel \<open>(r, c)\<close>: what each
  touched edge or corner asks, with the asks to absent neighbours left out.
\<close>

definition spec_questions :: "'d config \<Rightarrow> int \<Rightarrow> int \<Rightarrow> (direction \<times> int) set" where
  "spec_questions cfg r c =
     Set.filter (\<lambda>(d, p). neighbours cfg d \<noteq> -1)
       ((if r = 0 then
           {(TOP, c)} \<union> (if c = 0 then {(TOP_LEFT, 0)} else {})
                      \<union> (if c = columns cfg - 1 then {(TOP_RIGHT, 0)} else {})
         else {})
        \<union> (if r = rows cfg - 1 then
             {(BOTTOM, c)} \<union> (if c = 0 then {(BOTTOM_LEFT, 0)} else {})
                           \<union> (if c = columns cfg - 1 then {(BOTTOM_RIGHT, 0)} else {})
           else {})
        \<union> (if c = 0 then {(LEFT, r)} else {})
        \<union> (if c = columns cfg - 1 then {(RIGHT, r)} else {}))"

text \<open>Every pixel of a tile is -1 or +1.\<close>

definition binary_tile :: "tile \<Rightarrow> bool" where
  "binary_tile t = list_all (list_all (\<lambda>p. p = 1 \<or> p = - 1)) t"



text \<open>
  At every moment of a trace, direction \<open>D\<close> has no reply send or one reply send in
  flight.
\<close>

definition reply_slot_ok :: "direction \<Rightarrow> event list \<Rightarrow> bool" where
  "reply_slot_ok D tr =
     (\<forall>n\<le>length tr. 0 \<le> replies_in_flight D (take n tr) \<and> replies_in_flight D (take n tr) \<le> 1)"

text \<open>
  The invariant of the worker: the reply handle of an existing neighbour is set exactly
  when a reply send to it is in flight.
\<close>

definition reply_inv :: "'d config \<Rightarrow> worker \<Rightarrow> bool" where
  "reply_inv cfg s =
     (\<forall>D. reply_slot_ok D (trace s) \<and>
          replies_in_flight D (trace s) = (if neighbours cfg D \<noteq> -1 \<and> answerResponses s D then 1 else 0))"

text \<open>
  The FINISHED pair posted for every existing neighbour, and the rows shipped to the
  coordinator at the end.
\<close>

definition finished_posts :: "'d config \<Rightarrow> event list" where
  "finished_posts cfg =
     concat (map (\<lambda>d. [SendFinished d, PostFinishedRecv d])
               (filter (\<lambda>d. neighbours cfg d \<noteq> -1) directions))"

definition final_rows :: "'d config \<Rightarrow> tile \<Rightarrow> event list" where
  "final_rows cfg img = map (\<lambda>i. SendFinalRow i (img ! nat i)) [0 .. rows cfg - 1]"

text \<open>
  The shape of the waiting part of the handshake: a test of the FINISHED handles that
  reports both groups complete is the last call, and every other test is followed at
  once by a call of \<^verbatim>\<open>answerAll\<close>.
\<close>

fun serviced_waits :: "event list \<Rightarrow> bool" where
  "serviced_waits [] = True"
| "serviced_waits (e # tr) =
     (case e of
        TestFinished a b \<Rightarrow>
          (if a \<and> b then tr = [] else tr \<noteq> [] \<and> hd tr = Service \<and> serviced_waits tr)
      | _ \<Rightarrow> serviced_waits tr)"

section \<open>Concrete inputs\<close>

text \<open>
  An arithmetic for the concrete runs below: real numbers without rounding, and minus
  infinity as the logarithm of 0. The runs below compute only small integers, the
  quotients \<open>0 / RAND_MAX = 0\<close> and \<open>RAND_MAX / RAND_MAX = 1\<close>, \<^verbatim>\<open>log(0)\<close> and \<^verbatim>\<open>log(1)\<close>;
  on these IEEE double arithmetic and the C library give the same values.
\<close>

datatype exact = Num real | MinusInfinity

fun exact_mul :: "exact \<Rightarrow> exact \<Rightarrow> exact" where
  "exact_mul (Num a) (Num b) = Num (a * b)"
| "exact_mul x y = MinusInfinity"

fun exact_sub :: "exact \<Rightarrow> exact \<Rightarrow> exact" where
  "exact_sub (Num a) (Num b) = Num (a - b)"
| "exact_sub x y = MinusInfinity"

fun exact_div :: "exact \<Rightarrow> exact \<Rightarrow> exact" where
  "exact_div (Num a) (Num b) = Num (a / b)"
| "exact_div x y = MinusInfinity"

fun exact_log :: "exact \<Rightarrow> exact" where
  "exact_log (Num a) = (if a = 0 then MinusInfinity else Num (ln a))"
| "exact_log MinusInfinity = MinusInfinity"

fun exact_le :: "exact \<Rightarrow> exact \<Rightarrow> bool" where
  "exact_le MinusInfinity y = True"
| "exact_le (Num a) (Num b) = (a \<le> b)"
| "exact_le (Num a) MinusInfinity = False"

definition exact_arith :: "exact arith" where
  "exact_arith =
     \<lparr>d_of_int = (\<lambda>n. Num (real_of_int n)), d_mul = exact_mul, d_sub = exact_sub,
      d_div = exact_div, d_log = exact_log, d_le = exact_le\<rparr>"

definition no_handles :: "direction \<Rightarrow> bool" where
  "no_handles = (\<lambda>d. False)"

definition tile22 :: tile where
  "tile22 = [[1, 1], [- 1, 1]]"

definition tile33 :: tile where
  "tile33 = [[1, 1, 1], [1, - 1, 1], [1, 1, 1]]"

definition cfg_top :: "exact config" where
  "cfg_top = \<lparr>rows = 2, columns = 2, neighbours = (\<lambda>d. if d = TOP then 1 else -1),
              initialSubImage = tile22, beta = Num 1, gammaValue = Num 1, RAND_MAX = 32767,
              arithmetic = exact_arith\<rparr>"

definition cfg_interior :: "exact config" where
  "cfg_interior = \<lparr>rows = 3, columns = 3, neighbours = (\<lambda>d. if d = TOP then 1 else -1),
                   initialSubImage = tile33, beta = Num 1, gammaValue = Num 1, RAND_MAX = 32767,
                   arithmetic = exact_arith\<rparr>"

definition cfg_ones :: "exact config" where
  "cfg_ones = \<lparr>rows = 1, columns = 1, neighbours = (\<lambda>d. -1), initialSubImage = [[1]],
               beta = Num 1, gammaValue = Num 1, RAND_MAX = 32767, arithmetic = exact_arith\<rparr>"


definition arr_top :: "direction \<Rightarrow> int option" where
  "arr_top = (\<lambda>d. if d = TOP then Some 1 else None)"

definition poll_done :: poll where
  "poll_done = \<lparr>requestResult = True, responseResult = True, arrivals = (\<lambda>d. None)\<rparr>"

definition poll_question :: "int \<Rightarrow> poll" where
  "poll_question p = \<lparr>requestResult = True, responseResult = False,
                       arrivals = (\<lambda>d. if d = TOP then Some p else None)\<rparr>"

definition env_top_edge :: iter_env where
  "env_top_edge = \<lparr>rand_row = 0, rand_column = 1, polls = [poll_done], answers = (\<lambda>d. 2),
                    rand_accept = 0\<rparr>"

definition env_interior :: iter_env where
  "env_interior = \<lparr>rand_row = 4, rand_column = 7, polls = [], answers = (\<lambda>d. 5),
                    rand_accept = 0\<rparr>"

definition env_disagree :: iter_env where
  "env_disagree = \<lparr>rand_row = 1, rand_column = 0, polls = [], answers = (\<lambda>d. 0),
                    rand_accept = 32767\<rparr>"


definition env_draw_one :: iter_env where
  "env_draw_one = \<lparr>rand_row = 0, rand_column = 0, polls = [], answers = (\<lambda>d. 0),
                    rand_accept = 32767\<rparr>"


definition env_answering :: iter_env where
  "env_answering = \<lparr>rand_row = 0, rand_column = 1,
                     polls = [poll_question 0, poll_question 1, poll_done],
                     answers = (\<lambda>d. 2), rand_accept = 0\<rparr>"

definition env_long :: run_env where
  "env_long = \<lparr>uninitialised = no_handles, iteration_envs = replicate 2500000 env_draw_one,
                finish_polls = []\<rparr>"

definition env_once :: run_env where
  "env_once = \<lparr>uninitialised = no_handles, iteration_envs = [env_top_edge],
                finish_polls = [poll_done\<lparr>requestResult := False\<rparr>, poll_done]\<rparr>"

definition env_busy :: run_env where
  "env_busy = \<lparr>uninitialised = no_handles, iteration_envs = [env_answering],
                finish_polls = [poll_question 1, poll_done]\<rparr>"

section \<open>Properties of the neighbour sums\<close>

lemma fold_add_cond:
  "fold (\<lambda>j acc. if P j then acc + f j else acc) xs (a::int) = a + (\<Sum>j\<leftarrow>xs. if P j then f j else 0)"
  by (induction xs arbitrary: a) auto

lemma summer_row_sum:
  "summer_row img cols rc cc i acc =
     acc + (\<Sum>j\<leftarrow>[cc - 1 .. cc + 1]. if 0 \<le> j \<and> j < cols \<and> (i \<noteq> rc \<or> j \<noteq> cc) then sint (img ! nat i ! nat j) else 0)"
proof -
  have "summer_row img cols rc cc i acc =
      fold (\<lambda>j a. if 0 \<le> j \<and> j < cols \<and> (i \<noteq> rc \<or> j \<noteq> cc) then a + sint (img ! nat i ! nat j) else a)
        [cc - 1 .. cc + 1] acc"
    unfolding summer_row_def by (rule arg_cong[where f="\<lambda>g. fold g _ _"]) (intro ext, auto)
  then show ?thesis by (simp only: fold_add_cond)
qed

lemma sum_upto_set: "(\<Sum>j\<leftarrow>[a .. b]. f j) = (\<Sum>j\<in>{a .. b}. f (j::int))"
  by (simp add: sum_list_distinct_conv_sum_set)

lemma summer_sum:
  "summer img rws cols rc cc =
     (\<Sum>i\<in>{rc - 1 .. rc + 1}. \<Sum>j\<in>{cc - 1 .. cc + 1}.
        if (i, j) \<noteq> (rc, cc) \<and> 0 \<le> i \<and> i < rws \<and> 0 \<le> j \<and> j < cols then sint (img ! nat i ! nat j) else 0)"
proof -
  let ?g = "\<lambda>i. (\<Sum>j\<leftarrow>[cc - 1 .. cc + 1]. if 0 \<le> j \<and> j < cols \<and> (i \<noteq> rc \<or> j \<noteq> cc) then sint (img ! nat i ! nat j) else 0)"
  have "summer img rws cols rc cc =
      fold (\<lambda>i a. if 0 \<le> i \<and> i < rws then a + ?g i else a) [rc - 1 .. rc + 1] 0"
    unfolding summer_def by (simp only: summer_row_sum)
  also have "\<dots> = (\<Sum>i\<leftarrow>[rc - 1 .. rc + 1]. if 0 \<le> i \<and> i < rws then ?g i else 0)"
    by (simp only: fold_add_cond add_0)
  also have "\<dots> = (\<Sum>i\<in>{rc - 1 .. rc + 1}. if 0 \<le> i \<and> i < rws then (\<Sum>j\<in>{cc - 1 .. cc + 1}. if 0 \<le> j \<and> j < cols \<and> (i \<noteq> rc \<or> j \<noteq> cc) then sint (img ! nat i ! nat j) else 0) else 0)"
    by (simp only: sum_upto_set)
  also have "\<dots> = (\<Sum>i\<in>{rc - 1 .. rc + 1}. \<Sum>j\<in>{cc - 1 .. cc + 1}.
        if (i, j) \<noteq> (rc, cc) \<and> 0 \<le> i \<and> i < rws \<and> 0 \<le> j \<and> j < cols then sint (img ! nat i ! nat j) else 0)"
  proof (rule sum.cong[OF refl])
    fix i
    show "(if 0 \<le> i \<and> i < rws then (\<Sum>j\<in>{cc - 1 .. cc + 1}. if 0 \<le> j \<and> j < cols \<and> (i \<noteq> rc \<or> j \<noteq> cc) then sint (img ! nat i ! nat j) else 0) else 0)
        = (\<Sum>j\<in>{cc - 1 .. cc + 1}. if (i, j) \<noteq> (rc, cc) \<and> 0 \<le> i \<and> i < rws \<and> 0 \<le> j \<and> j < cols then sint (img ! nat i ! nat j) else 0)"
      by (cases "0 \<le> i \<and> i < rws") (auto intro!: sum.cong)
  qed
  finally show ?thesis .
qed

lemma summer_window:
  "summer img rws cols rc cc = sum (\<lambda>(i, j). sint (img ! nat i ! nat j)) (window rws cols rc cc)"
proof -
  let ?P = "\<lambda>(i, j). (i, j) \<noteq> (rc, cc) \<and> 0 \<le> i \<and> i < rws \<and> 0 \<le> j \<and> j < cols"
  let ?f = "\<lambda>(i, j). sint (img ! nat i ! nat j)"
  let ?A = "{rc - 1 .. rc + 1} \<times> {cc - 1 .. cc + 1}"
  have "summer img rws cols rc cc = (\<Sum>x\<in>?A. if ?P x then ?f x else 0)"
    unfolding summer_sum sum.cartesian_product by (rule sum.cong[OF refl]) (auto simp add: split_def)
  also have "\<dots> = sum ?f (Set.filter ?P ?A)"
  proof -
    have "Set.filter ?P ?A = {x \<in> ?A. ?P x}" by auto
    then show ?thesis by (simp only: sum.inter_filter[OF finite_cartesian_product[OF finite_atLeastAtMost_int finite_atLeastAtMost_int]])
  qed
  finally show ?thesis unfolding window_def .
qed

lemma answers_sent_append [simp]:
  "answers_sent D (xs @ ys) = answers_sent D xs @ answers_sent D ys"
  by (induction D xs rule: answers_sent.induct) simp_all

lemma rowCenter_spec: "rowCenter_of rws p D = spec_row_centre rws p D"
  by (cases D) (simp_all add: spec_row_centre_def)

lemma columnCenter_spec: "columnCenter_of cols p D = spec_column_centre cols p D"
  by (cases D) (simp_all add: spec_column_centre_def)

lemma answer_direction_subImage [simp]:
  "subImage (answer_direction cfg arr d s) = subImage s"
  by (simp add: answer_direction_def initializeAnAnswer_def emit_def Let_def split: option.splits)

lemma answer_direction_answers:
  "answers_sent D (trace (answer_direction cfg arr d s)) =
     answers_sent D (trace s) @
       (if d = D \<and> neighbours cfg d \<noteq> -1 then
          (case arr d of None \<Rightarrow> []
           | Some p \<Rightarrow> [summer (subImage s) (rows cfg) (columns cfg)
                          (rowCenter_of (rows cfg) p d) (columnCenter_of (columns cfg) p d)])
        else [])"
  by (auto simp add: answer_direction_def initializeAnAnswer_def emit_def Let_def split: option.splits)

lemma fold_answer_subImage [simp]:
  "subImage (fold (answer_direction cfg arr) ds s) = subImage s"
  by (induction ds arbitrary: s) simp_all

lemma fold_answer_answers:
  "distinct ds \<Longrightarrow>
   answers_sent D (trace (fold (answer_direction cfg arr) ds s)) =
     answers_sent D (trace s) @
       (if D \<in> set ds \<and> neighbours cfg D \<noteq> -1 then
          (case arr D of None \<Rightarrow> []
           | Some p \<Rightarrow> [summer (subImage s) (rows cfg) (columns cfg)
                          (rowCenter_of (rows cfg) p D) (columnCenter_of (columns cfg) p D)])
        else [])"
proof (induction ds arbitrary: s)
  case Nil
  then show ?case by simp
next
  case (Cons d ds)
  show ?case
  proof (cases "d = D")
    case True
    with Cons show ?thesis
      by (simp add: answer_direction_answers split: option.splits)
  next
    case False
    with Cons show ?thesis
      by (simp add: answer_direction_answers split: option.splits)
  qed
qed

lemma distinct_directions: "distinct directions"
  by (simp add: directions_def)

lemma set_directions: "set directions = UNIV"
proof -
  have "d \<in> set directions" for d by (cases d) (simp_all add: directions_def)
  then show ?thesis by auto
qed

text \<open>
  C1. When a question with position \<open>p\<close> has arrived from the existing neighbour in
  direction \<open>D\<close>, the one ANSWER value that \<^verbatim>\<open>answerAll\<close> sends back in that direction
  is the sum of the current tile's pixels over the 3x3 window centred at the virtual
  off-edge coordinates of the specification's table, without the centre and without
  every index outside the tile.
\<close>

theorem answer_is_window_sum:
  assumes "neighbours cfg D \<noteq> -1" and "arr D = Some p"
  shows "answers_sent D (trace (answerAll cfg arr s)) =
           answers_sent D (trace s) @
           [sum (\<lambda>(i, j). sint (subImage s ! nat i ! nat j))
              (window (rows cfg) (columns cfg)
                 (spec_row_centre (rows cfg) p D) (spec_column_centre (columns cfg) p D))]"
  using assms
  by (simp add: answerAll_def fold_answer_answers[OF distinct_directions] set_directions
        rowCenter_spec columnCenter_spec summer_window)

theorem answer_is_window_sum_witness:
  "neighbours cfg_top TOP \<noteq> -1 \<and> arr_top TOP = Some 1 \<and>
   answers_sent TOP (trace (answerAll cfg_top arr_top (start cfg_top no_handles))) = [2]"
proof -
  have n: "neighbours cfg_top TOP \<noteq> -1" by (simp add: cfg_top_def)
  have a: "arr_top TOP = Some 1" by (simp add: arr_top_def)
  have w: "sum (\<lambda>(i, j). sint (tile22 ! nat i ! nat j)) (window 2 2 (- 1) 1) = 2"
    unfolding summer_window[symmetric]
    by code_simp
  show ?thesis
    using answer_is_window_sum[of cfg_top TOP arr_top 1 "start cfg_top no_handles"] n a w
    by (simp add: start_def cfg_top_def spec_row_centre_def spec_column_centre_def)
qed

section \<open>Properties of the questions\<close>

lemma questions_sent_append [simp]:
  "questions_sent (xs @ ys) = questions_sent xs @ questions_sent ys"
  by (induction xs rule: questions_sent.induct) simp_all

lemma answer_direction_fields [simp]:
  "askRequests (answer_direction cfg arr d s) = askRequests s"
  "finishedReqResCount (answer_direction cfg arr d s) = finishedReqResCount s"
  "questions_sent (trace (answer_direction cfg arr d s)) = questions_sent (trace s)"
  by (simp_all add: answer_direction_def initializeAnAnswer_def emit_def Let_def
        split: option.splits)

lemma fold_answer_fields [simp]:
  "askRequests (fold (answer_direction cfg arr) ds s) = askRequests s"
  "finishedReqResCount (fold (answer_direction cfg arr) ds s) = finishedReqResCount s"
  "questions_sent (trace (fold (answer_direction cfg arr) ds s)) = questions_sent (trace s)"
  by (induction ds arbitrary: s) simp_all

lemma answerAll_fields [simp]:
  "subImage (answerAll cfg arr s) = subImage s"
  "askRequests (answerAll cfg arr s) = askRequests s"
  "finishedReqResCount (answerAll cfg arr s) = finishedReqResCount s"
  "questions_sent (trace (answerAll cfg arr s)) = questions_sent (trace s)"
  by (simp_all add: answerAll_def)

lemma await_answers_fields:
  assumes "await_answers cfg ps s = Inr s'"
  shows "subImage s' = subImage s"
    and "askRequests s' = askRequests s"
    and "finishedReqResCount s' = finishedReqResCount s"
    and "questions_sent (trace s') = questions_sent (trace s)"
  using assms
  by (induction ps arbitrary: s) (auto split: if_splits)

lemma await_answers_none:
  "askRequests s = [] \<Longrightarrow> await_answers cfg ps s = Inr s"
  by (cases ps) (simp_all add: askReqResCount_def testAskAll_def)

lemma askAsync_questions:
  "questions_sent (trace (askAsync cfg d p s)) =
     questions_sent (trace s) @ filter (\<lambda>(d, p). neighbours cfg d \<noteq> -1) [(d, p)]"
  by (simp add: askAsync_def emit_def)

lemma askAsync_requests:
  "askRequests (askAsync cfg d p s) =
     askRequests s @ filter (\<lambda>(d, p). neighbours cfg d \<noteq> -1) [(d, p)]"
  by (simp add: askAsync_def emit_def)

lemma askAsync_fields [simp]:
  "subImage (askAsync cfg d p s) = subImage s"
  "finishedReqResCount (askAsync cfg d p s) = finishedReqResCount s"
  "answerResponses (askAsync cfg d p s) = answerResponses s"
  by (simp_all add: askAsync_def emit_def)

lemma fold_askAsync_questions:
  "questions_sent (trace (fold (\<lambda>(d, p). askAsync cfg d p) qs s)) =
     questions_sent (trace s) @ filter (\<lambda>(d, p). neighbours cfg d \<noteq> -1) qs"
  by (induction qs arbitrary: s) (auto simp: askAsync_questions)

lemma fold_askAsync_requests:
  "askRequests (fold (\<lambda>(d, p). askAsync cfg d p) qs s) =
     askRequests s @ filter (\<lambda>(d, p). neighbours cfg d \<noteq> -1) qs"
  by (induction qs arbitrary: s) (auto simp: askAsync_requests)

lemma fold_askAsync_fields [simp]:
  "subImage (fold (\<lambda>(d, p). askAsync cfg d p) qs s) = subImage s"
  "finishedReqResCount (fold (\<lambda>(d, p). askAsync cfg d p) qs s) = finishedReqResCount s"
  "answerResponses (fold (\<lambda>(d, p). askAsync cfg d p) qs s) = answerResponses s"
  by (induction qs arbitrary: s) auto

lemma ask_neighbours_fold:
  "ask_neighbours cfg r c s = fold (\<lambda>(d, p). askAsync cfg d p) (ask_calls cfg r c) s"
  by (simp add: ask_neighbours_def ask_calls_def Let_def)

lemma distinct_ask_calls: "distinct (ask_calls cfg r c)"
  by (auto simp add: ask_calls_def)

lemma set_ask_calls:
  "Set.filter (\<lambda>(d, p). neighbours cfg d \<noteq> -1) (set (ask_calls cfg r c)) = spec_questions cfg r c"
  by (simp add: ask_calls_def spec_questions_def Un_assoc)

lemma set_filter_list: "set (filter P xs) = Set.filter P (set xs)"
  by auto

lemma askResult_fields [simp]:
  "subImage (snd (askResult an s)) = subImage s"
  "askRequests (snd (askResult an s)) = []"
  "trace (snd (askResult an s)) = trace s"
  "finishedReqResCount (snd (askResult an s)) = finishedReqResCount s"
  by (simp_all add: askResult_def)

lemma flip_fields [simp]:
  "askRequests (flip r c s) = askRequests s"
  "trace (flip r c s) = trace s"
  "finishedReqResCount (flip r c s) = finishedReqResCount s"
  "answerResponses (flip r c s) = answerResponses s"
  by (simp_all add: flip_def)

lemma emit_fields [simp]:
  "subImage (emit e s) = subImage s"
  "askRequests (emit e s) = askRequests s"
  "trace (emit e s) = trace s @ [e]"
  "finishedReqResCount (emit e s) = finishedReqResCount s"
  "answerResponses (emit e s) = answerResponses s"
  by (simp_all add: emit_def)

lemma iteration_questions:
  assumes "iteration cfg e s = Inr s'"
  shows "questions_sent (trace s') =
           questions_sent (trace s) @
           filter (\<lambda>(d, p). neighbours cfg d \<noteq> -1)
             (ask_calls cfg (rowPosition_of cfg e) (columnPosition_of cfg e))"
proof -
  let ?r = "rowPosition_of cfg e" and ?c = "columnPosition_of cfg e"
  let ?s1 = "ask_neighbours cfg ?r ?c (emit (Proposal ?r ?c) s)"
  from assms have nz: "\<not> (rows cfg = 0 \<or> columns cfg = 0)"
    by (auto simp: iteration_def)
  from assms nz obtain s2 where a: "await_answers cfg (polls e) ?s1 = Inr s2"
    by (cases "await_answers cfg (polls e) ?s1")
       (simp_all add: iteration_def Let_def rowPosition_of_def columnPosition_of_def)
  from assms nz a have t: "trace s' = trace s2"
    by (auto simp: iteration_def Let_def rowPosition_of_def columnPosition_of_def askResult_def
          split: if_splits)
  have "questions_sent (trace s') = questions_sent (trace ?s1)"
    using await_answers_fields(4)[OF a] t by simp
  then show ?thesis
    by (simp add: ask_neighbours_fold fold_askAsync_questions)
qed

text \<open>
  C8. In an iteration that samples pixel \<open>(r, c)\<close>, the QUESTION messages posted are,
  each once, exactly those the specification lists: TOP with \<open>c\<close> when \<open>r = 0\<close> (and the
  two top corners with 0), BOTTOM with \<open>c\<close> when \<open>r = rows - 1\<close> (and the two bottom
  corners with 0), LEFT with \<open>r\<close> when \<open>c = 0\<close>, RIGHT with \<open>r\<close> when
  \<open>c = columns - 1\<close>, without the asks to absent neighbours.
\<close>

theorem iteration_asks_spec_questions:
  assumes "iteration cfg e s = Inr s'"
  shows "\<exists>qs. questions_sent (trace s') = questions_sent (trace s) @ qs \<and> distinct qs \<and>
              set qs = spec_questions cfg (rowPosition_of cfg e) (columnPosition_of cfg e)"
proof -
  let ?qs = "filter (\<lambda>(d, p). neighbours cfg d \<noteq> -1)
               (ask_calls cfg (rowPosition_of cfg e) (columnPosition_of cfg e))"
  have "questions_sent (trace s') = questions_sent (trace s) @ ?qs"
    by (rule iteration_questions[OF assms])
  moreover have "distinct ?qs"
    by (rule distinct_filter[OF distinct_ask_calls])
  moreover have "set ?qs = spec_questions cfg (rowPosition_of cfg e) (columnPosition_of cfg e)"
    by (simp only: set_filter_list set_ask_calls)
  ultimately show ?thesis by blast
qed

theorem iteration_asks_spec_questions_witness:
  "\<exists>s'. iteration cfg_top env_top_edge (start cfg_top no_handles) = Inr s' \<and>
        questions_sent (trace s') = [(TOP, 1)]"
proof -
  let ?s = "start cfg_top no_handles"
  have "\<exists>s'. iteration cfg_top env_top_edge ?s = Inr s'"
    by (simp add: iteration_def cfg_top_def env_top_edge_def Let_def ask_neighbours_def
          askAsync_def poll_done_def testAskAll_def askReqResCount_def split: prod.splits)
  then obtain s' where r: "iteration cfg_top env_top_edge ?s = Inr s'" ..
  from iteration_asks_spec_questions[OF r] obtain qs
    where q: "questions_sent (trace s') = questions_sent (trace ?s) @ qs"
      and d: "distinct qs"
      and s: "set qs = spec_questions cfg_top (rowPosition_of cfg_top env_top_edge)
                         (columnPosition_of cfg_top env_top_edge)"
    by blast
  have "spec_questions cfg_top (rowPosition_of cfg_top env_top_edge)
          (columnPosition_of cfg_top env_top_edge) = {(TOP, 1)}"
    by (auto simp: spec_questions_def rowPosition_of_def columnPosition_of_def cfg_top_def
          env_top_edge_def)
  with s d have "qs = [(TOP, 1)]"
    by (cases qs) (auto simp: insert_eq_iff dest!: subset_singletonD)
  with q r show ?thesis by (simp add: start_def)
qed

section \<open>Iterations away from the tile edge\<close>

lemma iteration_requests:
  assumes "iteration cfg e s = Inr s'"
  shows "askRequests s' = []"
proof -
  let ?r = "rowPosition_of cfg e" and ?c = "columnPosition_of cfg e"
  let ?s1 = "ask_neighbours cfg ?r ?c (emit (Proposal ?r ?c) s)"
  from assms have nz: "\<not> (rows cfg = 0 \<or> columns cfg = 0)"
    by (auto simp: iteration_def)
  from assms nz obtain s2 where a: "await_answers cfg (polls e) ?s1 = Inr s2"
    by (cases "await_answers cfg (polls e) ?s1")
       (simp_all add: iteration_def Let_def rowPosition_of_def columnPosition_of_def)
  from assms nz a show ?thesis
    by (auto simp: iteration_def Let_def askResult_def rowPosition_of_def columnPosition_of_def
          split: if_splits)
qed

lemma sampler_requests:
  "sampler cfg n es s = Inr s' \<Longrightarrow> askRequests s = [] \<Longrightarrow> askRequests s' = []"
proof (induction cfg n es s rule: sampler.induct)
  case (1 cfg es s)
  then show ?case by simp
next
  case (2 cfg n s)
  then show ?case by simp
next
  case (3 cfg n e es s)
  then show ?case
    by (auto split: sum.splits dest: iteration_requests)
qed

lemma initializeAnswers_fields [simp]:
  "subImage (initializeAnswers cfg s) = subImage s"
  "askRequests (initializeAnswers cfg s) = askRequests s"
  "finishedReqResCount (initializeAnswers cfg s) = finishedReqResCount s"
proof -
  have "subImage (fold (\<lambda>d s. if neighbours cfg d = -1 then s
          else (initializeAnAnswer d s)\<lparr>answerResponses := (answerResponses s)(d := False)\<rparr>) ds s)
        = subImage s
      \<and> askRequests (fold (\<lambda>d s. if neighbours cfg d = -1 then s
          else (initializeAnAnswer d s)\<lparr>answerResponses := (answerResponses s)(d := False)\<rparr>) ds s)
        = askRequests s
      \<and> finishedReqResCount (fold (\<lambda>d s. if neighbours cfg d = -1 then s
          else (initializeAnAnswer d s)\<lparr>answerResponses := (answerResponses s)(d := False)\<rparr>) ds s)
        = finishedReqResCount s" for ds
    by (induction ds arbitrary: s) (simp_all add: initializeAnAnswer_def)
  then show "subImage (initializeAnswers cfg s) = subImage s"
    "askRequests (initializeAnswers cfg s) = askRequests s"
    "finishedReqResCount (initializeAnswers cfg s) = finishedReqResCount s"
    by (simp_all add: initializeAnswers_def)
qed

lemma interior_no_calls:
  "0 < r \<Longrightarrow> r < rows cfg - 1 \<Longrightarrow> 0 < c \<Longrightarrow> c < columns cfg - 1 \<Longrightarrow> ask_calls cfg r c = []"
  by (simp add: ask_calls_def)

text \<open>
  C10. At any point of the sampler loop, an iteration whose sampled pixel touches no
  tile edge sends no QUESTION, leaves the outstanding-query count at zero so that the
  completion test is true at once, collects the remote sum 0, and returns a state that
  is the same whatever the neighbour table, the passes of the waiting loop and the
  neighbours' answers are: the acceptance test uses the sum over the own tile only.
\<close>

theorem interior_iteration_is_local:
  assumes "sampler cfg n es (initializeAnswers cfg (start cfg u)) = Inr s"
    and "0 < rowPosition_of cfg e" and "rowPosition_of cfg e < rows cfg - 1"
    and "0 < columnPosition_of cfg e" and "columnPosition_of cfg e < columns cfg - 1"
  shows "\<exists>s'. iteration cfg e s = Inr s'
           \<and> questions_sent (trace s') = questions_sent (trace s)
           \<and> askReqResCount (ask_neighbours cfg (rowPosition_of cfg e) (columnPosition_of cfg e)
                                (emit (Proposal (rowPosition_of cfg e) (columnPosition_of cfg e)) s)) = 0
           \<and> (\<forall>p. testAskAll (ask_neighbours cfg (rowPosition_of cfg e) (columnPosition_of cfg e)
                                (emit (Proposal (rowPosition_of cfg e) (columnPosition_of cfg e)) s)) p)
           \<and> fst (askResult (answers e)
                     (ask_neighbours cfg (rowPosition_of cfg e) (columnPosition_of cfg e)
                        (emit (Proposal (rowPosition_of cfg e) (columnPosition_of cfg e)) s))) = 0
           \<and> askReqResCount s' = 0
           \<and> subImage s' =
               (if log_le cfg (randomProbability cfg (rand_accept e))
                     (deltaE_of cfg
                        (initialSubImage cfg ! nat (rowPosition_of cfg e) ! nat (columnPosition_of cfg e))
                        (subImage s ! nat (rowPosition_of cfg e) ! nat (columnPosition_of cfg e))
                        (summer (subImage s) (rows cfg) (columns cfg)
                           (rowPosition_of cfg e) (columnPosition_of cfg e)))
                then subImage (flip (rowPosition_of cfg e) (columnPosition_of cfg e) s)
                else subImage s)
           \<and> (\<forall>nb ps an. iteration (cfg\<lparr>neighbours := nb\<rparr>) (e\<lparr>polls := ps, answers := an\<rparr>) s
                            = Inr s')"
proof -
  let ?r = "rowPosition_of cfg e" and ?c = "columnPosition_of cfg e"
  let ?s0 = "emit (Proposal ?r ?c) s"
  have empty: "askRequests s = []"
    using sampler_requests[OF assms(1)] by (simp add: start_def)
  have dims: "rows cfg \<noteq> 0" "columns cfg \<noteq> 0"
    using assms(2-5) by auto
  have calls: "ask_calls cfg ?r ?c = []"
    using assms(2-5) by (rule interior_no_calls)
  have ask: "ask_neighbours cfg ?r ?c ?s0 = ?s0"
    by (simp add: ask_neighbours_fold calls)
  have calls': "ask_calls (cfg\<lparr>neighbours := nb\<rparr>) ?r ?c = []" for nb
    using assms(2-5) by (simp add: ask_calls_def)
  have ask': "ask_neighbours (cfg\<lparr>neighbours := nb\<rparr>) ?r ?c ?s0 = ?s0" for nb
    by (simp add: ask_neighbours_fold calls')
  have wait: "await_answers (cfg\<lparr>neighbours := nb\<rparr>) ps ?s0 = Inr ?s0" for nb ps
    by (rule await_answers_none) (simp add: empty)
  have res: "askResult an ?s0 = (0, ?s0)" for an
    by (simp add: askResult_def empty emit_def)
  let ?acc = "log_le cfg (randomProbability cfg (rand_accept e))
                (deltaE_of cfg (initialSubImage cfg ! nat ?r ! nat ?c) (subImage s ! nat ?r ! nat ?c)
                   (summer (subImage s) (rows cfg) (columns cfg) ?r ?c))"
  let ?s' = "if ?acc then flip ?r ?c ?s0 else ?s0"
  have it: "iteration (cfg\<lparr>neighbours := nb\<rparr>) (e\<lparr>polls := ps, answers := an\<rparr>) s = Inr ?s'"
    for nb ps an
    using dims ask'[of nb] wait res
    by (simp add: iteration_def Let_def rowPosition_of_def columnPosition_of_def
          randomProbability_def deltaE_of_def log_le_def)
  have it0: "iteration cfg e s = Inr ?s'"
    using it[where nb="neighbours cfg" and ps="polls e" and an="answers e"] by simp
  have "questions_sent (trace ?s') = questions_sent (trace s)" by simp
  moreover have "askReqResCount ?s' = 0" by (simp add: askReqResCount_def empty)
  moreover have "askReqResCount (ask_neighbours cfg ?r ?c ?s0) = 0"
    by (simp add: ask askReqResCount_def empty)
  moreover have "\<forall>p. testAskAll (ask_neighbours cfg ?r ?c ?s0) p"
    by (simp add: ask testAskAll_def askReqResCount_def empty)
  moreover have "fst (askResult (answers e) (ask_neighbours cfg ?r ?c ?s0)) = 0"
    by (simp add: ask res)
  moreover have "subImage ?s' = (if ?acc then subImage (flip ?r ?c s) else subImage s)"
    by (simp add: flip_def emit_def)
  ultimately show ?thesis
    using it it0 by (intro exI[of _ ?s']) simp
qed

theorem interior_iteration_is_local_witness:
  "sampler cfg_interior 0 [] (initializeAnswers cfg_interior (start cfg_interior no_handles))
     = Inr (initializeAnswers cfg_interior (start cfg_interior no_handles))
   \<and> rowPosition_of cfg_interior env_interior = 1
   \<and> columnPosition_of cfg_interior env_interior = 1
   \<and> (\<exists>s'. iteration cfg_interior env_interior
               (initializeAnswers cfg_interior (start cfg_interior no_handles)) = Inr s'
          \<and> subImage s' = [[1, 1, 1], [1, 1, 1], [1, 1, 1]]
          \<and> askReqResCount s' = 0
          \<and> (\<forall>nb ps an. iteration (cfg_interior\<lparr>neighbours := nb\<rparr>)
                            (env_interior\<lparr>polls := ps, answers := an\<rparr>)
                            (initializeAnswers cfg_interior (start cfg_interior no_handles))
                          = Inr s'))"
proof -
  let ?s = "initializeAnswers cfg_interior (start cfg_interior no_handles)"
  have reach: "sampler cfg_interior 0 [] ?s = Inr ?s" by simp
  have r: "rowPosition_of cfg_interior env_interior = 1"
    by (simp add: rowPosition_of_def cfg_interior_def env_interior_def)
  have c: "columnPosition_of cfg_interior env_interior = 1"
    by (simp add: columnPosition_of_def cfg_interior_def env_interior_def)
  have b: "0 < rowPosition_of cfg_interior env_interior"
    "rowPosition_of cfg_interior env_interior < rows cfg_interior - 1"
    "0 < columnPosition_of cfg_interior env_interior"
    "columnPosition_of cfg_interior env_interior < columns cfg_interior - 1"
    by (simp_all add: r c) (simp_all add: cfg_interior_def)
  have u: "log_le cfg_interior (randomProbability cfg_interior (rand_accept env_interior)) x" for x
    by (simp add: log_le_def randomProbability_def env_interior_def cfg_interior_def
          exact_arith_def)
  have img: "subImage (flip 1 1 ?s) = [[1, 1, 1], [1, 1, 1], [1, 1, 1]]"
    by (simp add: flip_def start_def cfg_interior_def tile33_def)
  from interior_iteration_is_local[OF reach b] show ?thesis
    using reach r c u img by auto
qed

section \<open>What one iteration does to the tile\<close>

lemma fold_answers_sum:
  "fold (\<lambda>(d, position) result. result + an d) xs (a::int) = a + (\<Sum>(d, p)\<leftarrow>xs. an d)"
  by (induction xs arbitrary: a) auto

lemma askResult_sum:
  "fst (askResult an s) = (\<Sum>(d, p)\<leftarrow>askRequests s. an d)"
  by (simp add: askResult_def fold_answers_sum rev_map[symmetric])

lemma iteration_tile:
  assumes "iteration cfg e s = Inr s'" and "askRequests s = []"
  shows "subImage s' =
           (if log_le cfg (randomProbability cfg (rand_accept e))
                 (deltaE_of cfg
                    (initialSubImage cfg ! nat (rowPosition_of cfg e) ! nat (columnPosition_of cfg e))
                    (subImage s ! nat (rowPosition_of cfg e) ! nat (columnPosition_of cfg e))
                    (summer (subImage s) (rows cfg) (columns cfg)
                       (rowPosition_of cfg e) (columnPosition_of cfg e) + remote_sum cfg e))
            then subImage (flip (rowPosition_of cfg e) (columnPosition_of cfg e) s)
            else subImage s)"
proof -
  let ?r = "rowPosition_of cfg e" and ?c = "columnPosition_of cfg e"
  let ?s1 = "ask_neighbours cfg ?r ?c (emit (Proposal ?r ?c) s)"
  from assms have nz: "\<not> (rows cfg = 0 \<or> columns cfg = 0)"
    by (auto simp: iteration_def)
  from assms nz obtain s2 where a: "await_answers cfg (polls e) ?s1 = Inr s2"
    by (cases "await_answers cfg (polls e) ?s1")
       (simp_all add: iteration_def Let_def rowPosition_of_def columnPosition_of_def)
  have img: "subImage s2 = subImage s"
    using await_answers_fields(1)[OF a] by (simp add: ask_neighbours_fold)
  have req: "askRequests s2 = filter (\<lambda>(d, p). neighbours cfg d \<noteq> -1) (ask_calls cfg ?r ?c)"
    using await_answers_fields(2)[OF a] assms(2)
    by (simp add: ask_neighbours_fold fold_askAsync_requests)
  have rem: "fst (askResult (answers e) s2) = remote_sum cfg e"
    by (simp add: askResult_sum req remote_sum_def)
  obtain remote s3 where ar: "askResult (answers e) s2 = (remote, s3)"
    by (cases "askResult (answers e) s2")
  have r3: "remote = remote_sum cfg e" using rem ar by simp
  have i3: "subImage s3 = subImage s"
    using askResult_fields(1)[of "answers e" s2] ar img by simp
  from assms(1) nz a ar
  have "s' = (if log_le cfg (randomProbability cfg (rand_accept e))
                  (deltaE_of cfg (initialSubImage cfg ! nat ?r ! nat ?c) (subImage s3 ! nat ?r ! nat ?c)
                     (summer (subImage s) (rows cfg) (columns cfg) ?r ?c + remote))
              then flip ?r ?c s3 else s3)"
    by (auto simp: iteration_def Let_def rowPosition_of_def columnPosition_of_def
          split: if_splits)
  then show ?thesis
    by (simp add: r3 i3 flip_def)
qed

section \<open>Pixels stay binary\<close>

lemma binary_tile_update:
  assumes "binary_tile t"
  shows "binary_tile (t[i := (t ! i)[j := - (t ! i ! j)]])"
proof (cases "i < length t \<and> j < length (t ! i)")
  case True
  then have px: "t ! i ! j = 1 \<or> t ! i ! j = - 1"
    using assms by (auto simp: binary_tile_def list_all_length)
  have neg: "- (t ! i ! j) = 1 \<or> - (t ! i ! j) = - 1"
    using px by auto
  have old: "list_all (\<lambda>p. p = 1 \<or> p = - 1) (t ! i)"
    using assms True by (simp add: binary_tile_def list_all_length)
  have row: "list_all (\<lambda>p. p = 1 \<or> p = - 1) ((t ! i)[j := - (t ! i ! j)])"
    using old neg True by (auto simp: list_all_length nth_list_update)
  show ?thesis
    using assms True row
    by (auto simp: binary_tile_def list_all_length nth_list_update)
next
  case False
  then have "t[i := (t ! i)[j := - (t ! i ! j)]] = t"
    by (cases "i < length t") (simp_all add: list_update_same_conv list_update_beyond)
  with assms show ?thesis by simp
qed

lemma iteration_binary:
  assumes "iteration cfg e s = Inr s'" and "askRequests s = []" and "binary_tile (subImage s)"
  shows "binary_tile (subImage s')"
  using iteration_tile[OF assms(1,2)] binary_tile_update[OF assms(3)] assms(3)
  by (simp add: flip_def split: if_splits)

lemma sampler_binary:
  "sampler cfg n es s = Inr s' \<Longrightarrow> askRequests s = [] \<Longrightarrow> binary_tile (subImage s)
     \<Longrightarrow> binary_tile (subImage s')"
proof (induction cfg n es s rule: sampler.induct)
  case (1 cfg es s)
  then show ?case by simp
next
  case (2 cfg n s)
  then show ?case by simp
next
  case (3 cfg n e es s)
  from "3.prems"(1) obtain s1 where it: "iteration cfg e s = Inr s1"
    and rest: "sampler cfg n es s1 = Inr s'"
    by (auto split: sum.splits)
  show ?case
    using "3.IH"[OF it rest iteration_requests[OF it]
        iteration_binary[OF it "3.prems"(2) "3.prems"(3)]] .
qed

text \<open>
  C3. If every pixel of the tile the worker receives is -1 or +1, then after any number
  \<open>n\<close> of sampler iterations every pixel of the current tile is -1 or +1: an iteration
  leaves the tile as it is or negates the sampled pixel.
\<close>

theorem pixels_stay_binary:
  assumes "binary_tile (initialSubImage cfg)"
    and "sampler cfg n es (initializeAnswers cfg (start cfg u)) = Inr s"
  shows "binary_tile (subImage s)"
  using sampler_binary[OF assms(2)] assms(1)
  by (simp add: start_def)

theorem pixels_stay_binary_witness:
  "binary_tile (initialSubImage cfg_top)
   \<and> (\<exists>s. sampler cfg_top 1 [env_top_edge] (initializeAnswers cfg_top (start cfg_top no_handles)) = Inr s
          \<and> subImage s = [[1, - 1], [- 1, 1]] \<and> binary_tile (subImage s))"
proof -
  let ?s0 = "initializeAnswers cfg_top (start cfg_top no_handles)"
  have b: "binary_tile (initialSubImage cfg_top)"
    by (simp add: binary_tile_def cfg_top_def tile22_def)
  have "\<exists>s. iteration cfg_top env_top_edge ?s0 = Inr s"
    by (simp add: iteration_def cfg_top_def env_top_edge_def Let_def split: sum.splits prod.splits)
       (simp add: ask_neighbours_def askAsync_def poll_done_def testAskAll_def
          askReqResCount_def Let_def)
  then obtain s where it: "iteration cfg_top env_top_edge ?s0 = Inr s" ..
  then have run: "sampler cfg_top 1 [env_top_edge] ?s0 = Inr s" by simp
  have pos: "rowPosition_of cfg_top env_top_edge = 0" "columnPosition_of cfg_top env_top_edge = 1"
    by (simp_all add: rowPosition_of_def columnPosition_of_def cfg_top_def env_top_edge_def)
  have acc: "log_le cfg_top (randomProbability cfg_top (rand_accept env_top_edge)) x" for x
    by (simp add: log_le_def randomProbability_def env_top_edge_def cfg_top_def exact_arith_def)
  have "subImage s = subImage (flip 0 1 ?s0)"
    using iteration_tile[OF it] acc by (simp add: pos start_def)
  then have img: "subImage s = [[1, - 1], [- 1, 1]]"
    by (simp add: flip_def start_def cfg_top_def tile22_def)
  from pixels_stay_binary[OF b run] b run img show ?thesis by blast
qed

section \<open>The acceptance test\<close>

lemma iteration_returns:
  assumes "rows cfg \<noteq> 0" and "columns cfg \<noteq> 0"
    and "await_answers cfg (polls e)
           (ask_neighbours cfg (rowPosition_of cfg e) (columnPosition_of cfg e)
              (emit (Proposal (rowPosition_of cfg e) (columnPosition_of cfg e)) s)) = Inr s2"
  shows "\<exists>s'. iteration cfg e s = Inr s'"
  using assms
  by (simp add: iteration_def Let_def rowPosition_of_def columnPosition_of_def split: prod.splits)

lemma draw_zero_accepted:
  "arithmetic cfg = exact_arith \<Longrightarrow> 0 < RAND_MAX cfg \<Longrightarrow>
     log_le cfg (randomProbability cfg 0) (Num x)"
  by (simp add: log_le_def randomProbability_def exact_arith_def)

lemma exact_deltaE:
  "arithmetic cfg = exact_arith \<Longrightarrow> beta cfg = Num b \<Longrightarrow> gammaValue cfg = Num g \<Longrightarrow>
     deltaE_of cfg observed current nsum
       = Num (- 2 * g * real_of_int (sint observed) * real_of_int (sint current)
              - 2 * b * real_of_int (sint current) * real_of_int nsum)"
  by (simp add: deltaE_of_def exact_arith_def Let_def)

text \<open>
  C2, as the specification states it, fails: \<^verbatim>\<open>rand()\<close> may return 0, the draw is then
  \<open>0 / RAND_MAX = 0\<close>, outside \<open>(0, 1]\<close>, and the pixel is flipped.
\<close>

theorem draw_from_half_open_interval_counterexample:
  "rand_accept env_top_edge \<le> RAND_MAX cfg_top
   \<and> randomProbability cfg_top (rand_accept env_top_edge) = Num 0
   \<and> map_sum id subImage
        (iteration cfg_top env_top_edge (initializeAnswers cfg_top (start cfg_top no_handles)))
       = Inr [[1, - 1], [- 1, 1]]"
proof -
  let ?s0 = "initializeAnswers cfg_top (start cfg_top no_handles)"
  have "\<exists>s. iteration cfg_top env_top_edge ?s0 = Inr s"
    by (simp add: iteration_def cfg_top_def env_top_edge_def Let_def rowPosition_of_def
          columnPosition_of_def split: sum.splits prod.splits)
       (simp add: ask_neighbours_def askAsync_def poll_done_def testAskAll_def
          askReqResCount_def Let_def)
  then obtain s where it: "iteration cfg_top env_top_edge ?s0 = Inr s" ..
  have pos: "rowPosition_of cfg_top env_top_edge = 0" "columnPosition_of cfg_top env_top_edge = 1"
    by (simp_all add: rowPosition_of_def columnPosition_of_def cfg_top_def env_top_edge_def)
  have dE: "\<exists>x. deltaE_of cfg_top a b n = Num x" for a b n
    by (rule exI, rule exact_deltaE) (simp_all add: cfg_top_def)
  have acc: "log_le cfg_top (randomProbability cfg_top (rand_accept env_top_edge))
               (deltaE_of cfg_top a b n)" for a b n
  proof -
    from dE obtain x where "deltaE_of cfg_top a b n = Num x" by blast
    moreover have "log_le cfg_top (randomProbability cfg_top 0) (Num x)"
      by (rule draw_zero_accepted) (simp_all add: cfg_top_def)
    ultimately show ?thesis by (simp add: env_top_edge_def)
  qed
  have "subImage s = subImage (flip 0 1 ?s0)"
    using iteration_tile[OF it] acc by (simp add: pos start_def)
  then have "subImage s = [[1, - 1], [- 1, 1]]"
    by (simp add: flip_def start_def cfg_top_def tile22_def)
  with it show ?thesis
    by (simp add: randomProbability_def env_top_edge_def cfg_top_def exact_arith_def)
qed

text \<open>
  C2, amended. At any point of the sampler loop, an iteration that samples \<open>(r, c)\<close>
  computes, in the \<^verbatim>\<open>double\<close> arithmetic of the platform,
  \<open>deltaE = ((-2 * gamma) * observed[r,c]) * current[r,c] - ((2 * beta) * current[r,c]) * sum\<close>,
  where \<open>sum\<close> is the local 3x3 neighbour sum plus the collected remote answers, and
  \<open>u = rand() / RAND_MAX\<close> for the value 0, ..., \<^verbatim>\<open>RAND_MAX\<close> that \<^verbatim>\<open>rand()\<close> returns; it
  negates \<open>current[r,c]\<close> exactly when the comparison \<^verbatim>\<open>log(u) <= deltaE\<close> of the platform
  is true.
\<close>

theorem iteration_metropolis_step:
  assumes "sampler cfg n es (initializeAnswers cfg (start cfg v)) = Inr s"
    and "iteration cfg e s = Inr s'"
  shows "let r = rowPosition_of cfg e; c = columnPosition_of cfg e;
             a = arithmetic cfg;
             u = d_div a (d_of_int a (int (rand_accept e))) (d_of_int a (int (RAND_MAX cfg)));
             observed = d_of_int a (sint (initialSubImage cfg ! nat r ! nat c));
             current = d_of_int a (sint (subImage s ! nat r ! nat c));
             total = d_of_int a (summer (subImage s) (rows cfg) (columns cfg) r c + remote_sum cfg e);
             deltaE = d_sub a (d_mul a (d_mul a (d_mul a (d_of_int a (- 2)) (gammaValue cfg)) observed)
                                       current)
                              (d_mul a (d_mul a (d_mul a (d_of_int a 2) (beta cfg)) current) total)
         in subImage s' =
              (if d_le a (d_log a u) deltaE
               then (subImage s)[nat r := (subImage s ! nat r)[nat c := - (subImage s ! nat r ! nat c)]]
               else subImage s)"
proof -
  have empty: "askRequests s = []"
    using sampler_requests[OF assms(1)] by (simp add: start_def)
  show ?thesis
    using iteration_tile[OF assms(2) empty]
    by (simp add: Let_def log_le_def randomProbability_def deltaE_of_def flip_def)
qed

theorem iteration_metropolis_step_witness:
  "sampler cfg_top 0 [] (initializeAnswers cfg_top (start cfg_top no_handles))
       = Inr (initializeAnswers cfg_top (start cfg_top no_handles))
   \<and> summer tile22 2 2 0 1 + remote_sum cfg_top env_top_edge = 3
   \<and> (\<exists>s'. iteration cfg_top env_top_edge (initializeAnswers cfg_top (start cfg_top no_handles))
               = Inr s' \<and> subImage s' = [[1, - 1], [- 1, 1]])
   \<and> summer tile22 2 2 1 0 + remote_sum cfg_top env_disagree = 3
   \<and> deltaE_of cfg_top (- 1) (- 1) 3 = Num 4
   \<and> d_log (arithmetic cfg_top) (randomProbability cfg_top (rand_accept env_disagree)) = Num 0
   \<and> (\<exists>s'. iteration cfg_top env_disagree (initializeAnswers cfg_top (start cfg_top no_handles))
               = Inr s' \<and> subImage s' = [[1, 1], [1, 1]])
   \<and> sampler cfg_ones 0 [] (initializeAnswers cfg_ones (start cfg_ones no_handles))
       = Inr (initializeAnswers cfg_ones (start cfg_ones no_handles))
   \<and> deltaE_of cfg_ones 1 1 0 = Num (- 2)
   \<and> (\<exists>s'. iteration cfg_ones env_draw_one (initializeAnswers cfg_ones (start cfg_ones no_handles))
               = Inr s' \<and> subImage s' = [[1]])"
proof -
  let ?t0 = "initializeAnswers cfg_top (start cfg_top no_handles)"
  let ?s0 = "initializeAnswers cfg_ones (start cfg_ones no_handles)"
  have reach_t: "sampler cfg_top 0 [] ?t0 = Inr ?t0" by simp
  have reach: "sampler cfg_ones 0 [] ?s0 = Inr ?s0" by simp
  \<comment> \<open>the pixel (0, 1) on the top edge of the 2x2 tile, draw 0: flipped\<close>
  have "\<exists>s. iteration cfg_top env_top_edge ?t0 = Inr s"
    by (simp add: iteration_def cfg_top_def env_top_edge_def Let_def rowPosition_of_def
          columnPosition_of_def split: sum.splits prod.splits)
       (simp add: ask_neighbours_def askAsync_def poll_done_def testAskAll_def
          askReqResCount_def Let_def)
  then obtain t' where it_t: "iteration cfg_top env_top_edge ?t0 = Inr t'" ..
  have pos_t: "rowPosition_of cfg_top env_top_edge = 0" "columnPosition_of cfg_top env_top_edge = 1"
    by (simp_all add: rowPosition_of_def columnPosition_of_def cfg_top_def env_top_edge_def)
  have rem_t: "remote_sum cfg_top env_top_edge = 2"
    by (simp add: remote_sum_def pos_t ask_calls_def) (simp add: cfg_top_def env_top_edge_def)
  have loc_t: "summer tile22 2 2 0 1 = 1"
    by code_simp
  from iteration_metropolis_step[OF reach_t it_t]
  have img_t: "subImage t' = [[1, - 1], [- 1, 1]]"
    by (simp add: Let_def pos_t rem_t start_def)
       (simp add: cfg_top_def env_top_edge_def exact_arith_def loc_t tile22_def)
  \<comment> \<open>the pixel (1, 0), which is -1 among three +1, draw 1: deltaE = 4, flipped\<close>
  have pos_d: "rowPosition_of cfg_top env_disagree = 1" "columnPosition_of cfg_top env_disagree = 0"
    by (simp_all add: rowPosition_of_def columnPosition_of_def cfg_top_def env_disagree_def)
  have ask_d: "ask_neighbours cfg_top 1 0 x = x" for x
    by (simp add: ask_neighbours_def askAsync_def cfg_top_def Let_def)
  have aw_d: "await_answers cfg_top ps (emit (Proposal 1 0) ?t0) = Inr (emit (Proposal 1 0) ?t0)" for ps
    by (rule await_answers_none) (simp add: start_def)
  have "\<exists>s'. iteration cfg_top env_disagree ?t0 = Inr s'"
    by (rule iteration_returns[where ?s2.0 = "emit (Proposal 1 0) ?t0"])
       (simp_all add: pos_d ask_d aw_d, simp_all add: cfg_top_def)
  then obtain d' where it_d: "iteration cfg_top env_disagree ?t0 = Inr d'" ..
  have rem_d: "remote_sum cfg_top env_disagree = 0"
    by (simp add: remote_sum_def pos_d ask_calls_def) (simp add: cfg_top_def)
  have loc_d: "summer tile22 2 2 1 0 = 3"
    by code_simp
  have dE_d: "deltaE_of cfg_top (- 1) (- 1) 3 = Num 4"
    by (subst exact_deltaE[where b = 1 and g = 1]) (simp_all add: cfg_top_def)
  have lg_d: "d_log (arithmetic cfg_top) (randomProbability cfg_top (rand_accept env_disagree)) = Num 0"
    by (simp add: randomProbability_def cfg_top_def env_disagree_def exact_arith_def)
  from iteration_metropolis_step[OF reach_t it_d]
  have img_d: "subImage d' = [[1, 1], [1, 1]]"
    by (simp add: Let_def pos_d rem_d start_def)
       (simp add: cfg_top_def env_disagree_def exact_arith_def loc_d[unfolded tile22_def]
          tile22_def start_def)
  \<comment> \<open>the single pixel of the 1x1 tile, draw 1: deltaE = -2, kept\<close>
  have ask: "ask_neighbours cfg_ones 0 0 x = x" for x
    by (simp add: ask_neighbours_def askAsync_def cfg_ones_def Let_def)
  have pos: "rowPosition_of cfg_ones env_draw_one = 0" "columnPosition_of cfg_ones env_draw_one = 0"
    by (simp_all add: rowPosition_of_def columnPosition_of_def cfg_ones_def env_draw_one_def)
  have aw: "await_answers cfg_ones ps (emit (Proposal 0 0) ?s0) = Inr (emit (Proposal 0 0) ?s0)" for ps
    by (rule await_answers_none) (simp add: start_def)
  have "\<exists>s'. iteration cfg_ones env_draw_one ?s0 = Inr s'"
    by (rule iteration_returns[where ?s2.0 = "emit (Proposal 0 0) ?s0"])
       (simp_all add: pos ask aw, simp_all add: cfg_ones_def)
  then obtain s' where it: "iteration cfg_ones env_draw_one ?s0 = Inr s'" ..
  have rem: "remote_sum cfg_ones env_draw_one = 0"
    by (simp add: remote_sum_def pos ask_calls_def cfg_ones_def)
  have loc: "summer [[1]] 1 1 0 0 = 0"
    by code_simp
  have dE: "deltaE_of cfg_ones 1 1 0 = Num (- 2)"
    by (subst exact_deltaE[where b = 1 and g = 1]) (simp_all add: cfg_ones_def)
  from iteration_metropolis_step[OF reach it]
  have img: "subImage s' = [[1]]"
    by (simp add: Let_def pos rem start_def)
       (simp add: cfg_ones_def env_draw_one_def exact_arith_def loc)
  have "\<exists>s'. iteration cfg_top env_top_edge ?t0 = Inr s' \<and> subImage s' = [[1, - 1], [- 1, 1]]"
    using it_t img_t by blast
  moreover have "\<exists>s'. iteration cfg_top env_disagree ?t0 = Inr s' \<and> subImage s' = [[1, 1], [1, 1]]"
    using it_d img_d by blast
  moreover have "\<exists>s'. iteration cfg_ones env_draw_one ?s0 = Inr s' \<and> subImage s' = [[1]]"
    using it img by blast
  ultimately show ?thesis
    using reach_t reach loc_t rem_t loc_d rem_d dE_d lg_d dE by simp
qed

section \<open>A tile that is uniformly +1\<close>


lemma finite_window: "finite (window rws cols rc cc)"
  by (simp add: window_def)








section \<open>The calls each part of the worker makes\<close>

lemma extends_refl [simp]: "extends P s s"
  by (simp add: extends_def)

lemma extends_trans: "extends P s t \<Longrightarrow> extends P t u \<Longrightarrow> extends P s u"
  by (auto simp: extends_def)

lemma extends_emit: "P e \<Longrightarrow> extends P s (emit e s)"
  by (simp add: extends_def)

lemma extends_mono: "extends P s t \<Longrightarrow> (\<And>e. P e \<Longrightarrow> Q e) \<Longrightarrow> extends Q s t"
  by (auto simp: extends_def list_all_iff)

lemma answer_direction_extends: "extends answering s (answer_direction cfg arr d s)"
  by (simp add: answer_direction_def initializeAnAnswer_def emit_def Let_def extends_def
        split: option.splits)

lemma fold_answer_extends: "extends answering s (fold (answer_direction cfg arr) ds s)"
proof (induction ds arbitrary: s)
  case Nil
  show ?case by simp
next
  case (Cons d ds)
  show ?case
    using extends_trans[OF answer_direction_extends Cons.IH] by simp
qed

lemma answerAll_extends: "extends answering s (answerAll cfg arr s)"
  by (simp add: answerAll_def fold_answer_extends)

lemma await_answers_extends:
  "await_answers cfg ps s = Inr s' \<Longrightarrow> extends answering s s'"
proof (induction ps arbitrary: s)
  case Nil
  then show ?case by (simp split: if_splits)
next
  case (Cons p ps)
  show ?case
  proof (cases "testAskAll s p")
    case True
    with Cons.prems show ?thesis by simp
  next
    case False
    with Cons.prems have "await_answers cfg ps (answerAll cfg (arrivals p) s) = Inr s'" by simp
    from extends_trans[OF answerAll_extends Cons.IH[OF this]] show ?thesis .
  qed
qed

lemma askAsync_extends: "extends asking s (askAsync cfg d p s)"
  by (simp add: askAsync_def emit_def extends_def)

lemma fold_askAsync_extends: "extends asking s (fold (\<lambda>(d, p). askAsync cfg d p) qs s)"
proof (induction qs arbitrary: s)
  case Nil
  show ?case by simp
next
  case (Cons q qs)
  obtain d p where q: "q = (d, p)" by (cases q)
  show ?case
    using extends_trans[OF askAsync_extends Cons.IH] by (simp add: q)
qed

lemma initializeAnswers_extends: "extends answering s (initializeAnswers cfg s)"
proof -
  have "extends answering s (fold (\<lambda>d s. if neighbours cfg d = -1 then s
          else (initializeAnAnswer d s)\<lparr>answerResponses := (answerResponses s)(d := False)\<rparr>) ds s)"
    for ds
  proof (induction ds arbitrary: s)
    case Nil
    show ?case by simp
  next
    case (Cons d ds)
    have step: "extends answering s (if neighbours cfg d = -1 then s
          else (initializeAnAnswer d s)\<lparr>answerResponses := (answerResponses s)(d := False)\<rparr>)"
      by (simp add: extends_def initializeAnAnswer_def emit_def)
    show ?case
      using extends_trans[OF step Cons.IH] by simp
  qed
  then show ?thesis by (simp add: initializeAnswers_def)
qed

text \<open>One iteration: the proposal, then questions and answers only.\<close>

lemma iteration_trace:
  assumes "iteration cfg e s = Inr s'"
  shows "\<exists>X. trace s' = trace s @ Proposal (rowPosition_of cfg e) (columnPosition_of cfg e) # X
            \<and> list_all (\<lambda>e. answering e \<or> asking e) X"
proof -
  let ?r = "rowPosition_of cfg e" and ?c = "columnPosition_of cfg e"
  let ?s0 = "emit (Proposal ?r ?c) s"
  let ?s1 = "ask_neighbours cfg ?r ?c ?s0"
  from assms have nz: "\<not> (rows cfg = 0 \<or> columns cfg = 0)"
    by (auto simp: iteration_def)
  from assms nz obtain s2 where a: "await_answers cfg (polls e) ?s1 = Inr s2"
    by (cases "await_answers cfg (polls e) ?s1")
       (simp_all add: iteration_def Let_def rowPosition_of_def columnPosition_of_def)
  from assms nz a have t: "trace s' = trace s2"
    by (auto simp: iteration_def Let_def rowPosition_of_def columnPosition_of_def askResult_def
          split: if_splits)
  have "extends asking ?s0 ?s1"
    unfolding ask_neighbours_fold by (rule fold_askAsync_extends)
  then have "extends (\<lambda>e. answering e \<or> asking e) ?s0 ?s1"
    by (rule extends_mono) simp
  moreover have "extends (\<lambda>e. answering e \<or> asking e) ?s1 s2"
    by (rule extends_mono[OF await_answers_extends[OF a]]) simp
  ultimately have "extends (\<lambda>e. answering e \<or> asking e) ?s0 s2"
    by (rule extends_trans)
  then show ?thesis
    by (auto simp: extends_def t)
qed

lemma proposals_append [simp]: "proposals (xs @ ys) = proposals xs + proposals ys"
  by (induction xs rule: proposals.induct) simp_all

lemma proposals_none:
  "list_all (\<lambda>e. \<forall>r c. e \<noteq> Proposal r c) X \<Longrightarrow> proposals X = 0"
  by (induction X rule: proposals.induct) simp_all

lemma not_proposal:
  "answering e \<or> asking e \<Longrightarrow> \<forall>r c. e \<noteq> Proposal r c"
  by (cases e) simp_all

lemma extends_proposals:
  assumes "extends P s s'" and "\<And>e. P e \<Longrightarrow> \<forall>r c. e \<noteq> Proposal r c"
  shows "proposals (trace s') = proposals (trace s)"
proof -
  from assms(1) obtain X where X: "trace s' = trace s @ X" "list_all P X"
    by (auto simp: extends_def)
  have "list_all (\<lambda>e. \<forall>r c. e \<noteq> Proposal r c) X"
    using X(2) assms(2) by (simp add: list_all_iff)
  then show ?thesis by (simp add: X(1) proposals_none)
qed

lemma iteration_proposals:
  assumes "iteration cfg e s = Inr s'"
  shows "proposals (trace s') = Suc (proposals (trace s))"
proof -
  from iteration_trace[OF assms] obtain X
    where X: "trace s' = trace s @ Proposal (rowPosition_of cfg e) (columnPosition_of cfg e) # X"
      "list_all (\<lambda>e. answering e \<or> asking e) X"
    by blast
  have "list_all (\<lambda>e. \<forall>r c. e \<noteq> Proposal r c) X"
    using X(2) not_proposal by (simp add: list_all_iff)
  then show ?thesis by (simp add: X(1) proposals_none)
qed

lemma sampler_proposals:
  "sampler cfg n es s = Inr s' \<Longrightarrow> proposals (trace s') = proposals (trace s) + n"
proof (induction cfg n es s rule: sampler.induct)
  case (1 cfg es s)
  then show ?case by simp
next
  case (2 cfg n s)
  then show ?case by simp
next
  case (3 cfg n e es s)
  from "3.prems" obtain s1 where it: "iteration cfg e s = Inr s1"
    and rest: "sampler cfg n es s1 = Inr s'"
    by (auto split: sum.splits)
  show ?case
    using "3.IH"[OF it rest] iteration_proposals[OF it] by simp
qed

section \<open>The calls of the termination handshake\<close>

lemma sendFinishedAll_fold:
  "trace (fold (\<lambda>d s. if neighbours cfg d \<noteq> -1
        then (emit (PostFinishedRecv d) (emit (SendFinished d) s))
               \<lparr>finishedReqResCount := finishedReqResCount s + 1\<rparr>
        else s) ds s)
     = trace s @ concat (map (\<lambda>d. [SendFinished d, PostFinishedRecv d])
                           (filter (\<lambda>d. neighbours cfg d \<noteq> -1) ds))
   \<and> finishedReqResCount (fold (\<lambda>d s. if neighbours cfg d \<noteq> -1
        then (emit (PostFinishedRecv d) (emit (SendFinished d) s))
               \<lparr>finishedReqResCount := finishedReqResCount s + 1\<rparr>
        else s) ds s)
     = finishedReqResCount s + length (filter (\<lambda>d. neighbours cfg d \<noteq> -1) ds)
   \<and> subImage (fold (\<lambda>d s. if neighbours cfg d \<noteq> -1
        then (emit (PostFinishedRecv d) (emit (SendFinished d) s))
               \<lparr>finishedReqResCount := finishedReqResCount s + 1\<rparr>
        else s) ds s) = subImage s
   \<and> answerResponses (fold (\<lambda>d s. if neighbours cfg d \<noteq> -1
        then (emit (PostFinishedRecv d) (emit (SendFinished d) s))
               \<lparr>finishedReqResCount := finishedReqResCount s + 1\<rparr>
        else s) ds s) = answerResponses s"
  by (induction ds arbitrary: s) (simp_all add: emit_def)

lemma sendFinishedAll_fields:
  "trace (sendFinishedAll cfg s) = trace s @ finished_posts cfg"
  "finishedReqResCount (sendFinishedAll cfg s)
     = finishedReqResCount s + length (filter (\<lambda>d. neighbours cfg d \<noteq> -1) directions)"
  "subImage (sendFinishedAll cfg s) = subImage s"
  "answerResponses (sendFinishedAll cfg s) = answerResponses s"
  using sendFinishedAll_fold[of cfg directions s]
  by (simp_all add: sendFinishedAll_def finished_posts_def)

lemma sendFinalRows_fold:
  "trace (fold (\<lambda>i s. emit (SendFinalRow i (subImage s ! nat i)) s) is s)
     = trace s @ map (\<lambda>i. SendFinalRow i (subImage s ! nat i)) is
   \<and> subImage (fold (\<lambda>i s. emit (SendFinalRow i (subImage s ! nat i)) s) is s) = subImage s
   \<and> answerResponses (fold (\<lambda>i s. emit (SendFinalRow i (subImage s ! nat i)) s) is s)
       = answerResponses s"
  by (induction "is" arbitrary: s) simp_all

lemma sendFinalRows_fields:
  "trace (sendFinalRows cfg s) = trace s @ final_rows cfg (subImage s)"
  "subImage (sendFinalRows cfg s) = subImage s"
  "answerResponses (sendFinalRows cfg s) = answerResponses s"
  using sendFinalRows_fold[of "[0 .. rows cfg - 1]" s]
  by (simp_all add: sendFinalRows_def final_rows_def)

lemma serviced_waits_skip:
  "list_all answering A \<Longrightarrow> serviced_waits (A @ W) = serviced_waits W"
proof (induction A)
  case Nil
  show ?case by simp
next
  case (Cons e A)
  then show ?case by (cases e) simp_all
qed

lemma await_finished_trace:
  assumes "await_finished cfg ps s = Inr s'" and "0 < finishedReqResCount s"
  shows "\<exists>W. trace s' = trace s @ W \<and> W \<noteq> [] \<and> last W = TestFinished True True
            \<and> serviced_waits W \<and> list_all handshake_call W
            \<and> (\<exists>p\<in>set ps. requestResult p \<and> responseResult p)"
  using assms
proof (induction ps arbitrary: s)
  case Nil
  then show ?case by simp
next
  case (Cons p ps)
  let ?t = "TestFinished (requestResult p) (responseResult p)"
  show ?case
  proof (cases "requestResult p \<and> responseResult p")
    case True
    with Cons.prems have "s' = emit ?t s" by (simp add: Let_def)
    with True have "trace s' = trace s @ [TestFinished True True]" by simp
    then show ?thesis
      using True by (auto simp: handshake_call_def)
  next
    case False
    let ?s2 = "answerAll cfg (arrivals p) (emit Service (emit ?t s))"
    from False Cons.prems have rec: "await_finished cfg ps ?s2 = Inr s'"
      by (auto simp: Let_def)
    have cnt: "0 < finishedReqResCount ?s2" using Cons.prems(2) by simp
    from Cons.IH[OF rec cnt] obtain W
      where W: "trace s' = trace ?s2 @ W" "W \<noteq> []" "last W = TestFinished True True"
        "serviced_waits W" "list_all handshake_call W"
        "\<exists>p\<in>set ps. requestResult p \<and> responseResult p"
      by blast
    from answerAll_extends[of "emit Service (emit ?t s)" cfg "arrivals p"] obtain A
      where A: "trace ?s2 = trace s @ [?t, Service] @ A" "list_all answering A"
      by (auto simp: extends_def)
    let ?W = "?t # Service # A @ W"
    have "trace s' = trace s @ ?W" using W(1) A(1) by simp
    moreover have "last ?W = TestFinished True True" using W(2,3) by simp
    moreover have "serviced_waits ?W"
      using False W(4) serviced_waits_skip[OF A(2)] by simp
    moreover have "list_all handshake_call ?W"
      using W(5) A(2) by (auto simp: handshake_call_def list_all_iff)
    ultimately show ?thesis using W(6) by (intro exI[of _ ?W]) simp
  qed
qed

lemma await_finished_none:
  "finishedReqResCount s = 0 \<Longrightarrow> await_finished cfg ps s = Inr s"
  by (cases ps) simp_all

lemma await_finished_fields:
  assumes "await_finished cfg ps s = Inr s'"
  shows "subImage s' = subImage s"
  using assms
  by (induction ps arbitrary: s) (auto simp: Let_def split: if_splits)
section \<open>The whole run of a worker\<close>

lemma iteration_count_fields:
  assumes "iteration cfg e s = Inr s'"
  shows "finishedReqResCount s' = finishedReqResCount s"
proof -
  let ?r = "rowPosition_of cfg e" and ?c = "columnPosition_of cfg e"
  let ?s1 = "ask_neighbours cfg ?r ?c (emit (Proposal ?r ?c) s)"
  from assms have nz: "\<not> (rows cfg = 0 \<or> columns cfg = 0)"
    by (auto simp: iteration_def)
  from assms nz obtain s2 where a: "await_answers cfg (polls e) ?s1 = Inr s2"
    by (cases "await_answers cfg (polls e) ?s1")
       (simp_all add: iteration_def Let_def rowPosition_of_def columnPosition_of_def)
  from assms nz a have "finishedReqResCount s' = finishedReqResCount s2"
    by (auto simp: iteration_def Let_def askResult_def rowPosition_of_def columnPosition_of_def
          split: if_splits)
  then show ?thesis
    using await_answers_fields(3)[OF a] by (simp add: ask_neighbours_fold)
qed

lemma sampler_count_fields:
  "sampler cfg n es s = Inr s' \<Longrightarrow> finishedReqResCount s' = finishedReqResCount s"
proof (induction cfg n es s rule: sampler.induct)
  case (1 cfg es s)
  then show ?case by simp
next
  case (2 cfg n s)
  then show ?case by simp
next
  case (3 cfg n e es s)
  from "3.prems" obtain s1 where it: "iteration cfg e s = Inr s1"
    and rest: "sampler cfg n es s1 = Inr s'"
    by (auto split: sum.splits)
  show ?case
    using "3.IH"[OF it rest] iteration_count_fields[OF it] by simp
qed


lemma has_neighbour_filter:
  "(\<exists>d. neighbours cfg d \<noteq> -1) \<longleftrightarrow> filter (\<lambda>d. neighbours cfg d \<noteq> -1) directions \<noteq> []"
  by (simp add: filter_empty_conv set_directions)

lemma finish_structure:
  assumes "finish cfg ps s = Inr s'" and "finishedReqResCount s = 0"
  shows "\<exists>W. trace s' = trace s @ finished_posts cfg @ W @ final_rows cfg (subImage s')
            \<and> list_all handshake_call W \<and> serviced_waits W
            \<and> ((\<exists>d. neighbours cfg d \<noteq> -1) \<longrightarrow>
                   W \<noteq> [] \<and> last W = TestFinished True True
                   \<and> (\<exists>p\<in>set ps. requestResult p \<and> responseResult p))
            \<and> subImage s' = subImage s"
proof -
  let ?s1 = "sendFinishedAll cfg s"
  from assms(1) obtain s2 where w: "await_finished cfg ps ?s1 = Inr s2"
    and s': "s' = sendFinalRows cfg s2"
    by (auto simp: finish_def split: sum.splits)
  have img: "subImage s2 = subImage s"
    using await_finished_fields[OF w] by (simp add: sendFinishedAll_fields)
  have tr: "trace s' = trace s2 @ final_rows cfg (subImage s')"
    by (simp add: s' sendFinalRows_fields)
  show ?thesis
  proof (cases "\<exists>d. neighbours cfg d \<noteq> -1")
    case True
    then have "0 < finishedReqResCount ?s1"
      by (simp add: sendFinishedAll_fields has_neighbour_filter)
    from await_finished_trace[OF w this] obtain W
      where W: "trace s2 = trace ?s1 @ W" "W \<noteq> []" "last W = TestFinished True True"
        "serviced_waits W" "list_all handshake_call W"
        "\<exists>p\<in>set ps. requestResult p \<and> responseResult p"
      by blast
    show ?thesis
      using W tr img by (intro exI[of _ W]) (simp add: sendFinishedAll_fields s' sendFinalRows_fields)
  next
    case False
    then have "finishedReqResCount ?s1 = 0"
      using assms(2) by (simp add: sendFinishedAll_fields has_neighbour_filter)
    then have "s2 = ?s1" using w by (simp add: await_finished_none)
    then show ?thesis
      using False tr img
      by (intro exI[of _ "[]"]) (simp add: sendFinishedAll_fields s' sendFinalRows_fields)
  qed
qed

lemma slave_phases:
  assumes "slave world_size cfg env = Inr s'"
  obtains s where "world_size - 1 \<noteq> 0"
    and "sampler cfg (nat (TOTAL_ITERATIONS div (world_size - 1))) (iteration_envs env)
           (initializeAnswers cfg (start cfg (uninitialised env))) = Inr s"
    and "finish cfg (finish_polls env) s = Inr s'"
  using assms
  by (auto simp: slave_def Let_def split: if_splits sum.splits)

lemma handshake_not_proposal: "handshake_call e \<Longrightarrow> \<forall>r c. e \<noteq> Proposal r c"
  by (cases e) (simp_all add: handshake_call_def)

lemma slave_proposals:
  assumes "slave world_size cfg env = Inr s'"
  shows "proposals (trace s') = nat (TOTAL_ITERATIONS div (world_size - 1))"
proof -
  let ?s0 = "initializeAnswers cfg (start cfg (uninitialised env))"
  from assms obtain s
    where run: "sampler cfg (nat (TOTAL_ITERATIONS div (world_size - 1))) (iteration_envs env) ?s0 = Inr s"
      and fin: "finish cfg (finish_polls env) s = Inr s'"
    by (rule slave_phases)
  have "proposals (trace ?s0) = proposals (trace (start cfg (uninitialised env)))"
    by (rule extends_proposals[OF initializeAnswers_extends]) (simp add: not_proposal)
  then have p0: "proposals (trace ?s0) = 0" by (simp add: start_def)
  have ps: "proposals (trace s) = nat (TOTAL_ITERATIONS div (world_size - 1))"
    using sampler_proposals[OF run] p0 by simp
  have "finishedReqResCount s = 0"
    using sampler_count_fields[OF run] by (simp add: start_def)
  from finish_structure[OF fin this] obtain W
    where W: "trace s' = trace s @ finished_posts cfg @ W @ final_rows cfg (subImage s')"
      "list_all handshake_call W"
    by blast
  have "proposals (finished_posts cfg) = 0"
    by (rule proposals_none) (auto simp: finished_posts_def list_all_iff)
  moreover have "proposals W = 0"
    using W(2) handshake_not_proposal by (intro proposals_none) (simp add: list_all_iff)
  moreover have "proposals (final_rows cfg (subImage s')) = 0"
    by (rule proposals_none) (auto simp: final_rows_def list_all_iff)
  ultimately show ?thesis by (simp add: W(1) ps)
qed
section \<open>A worker without neighbours always finishes\<close>

lemma isolated_calls:
  assumes "\<forall>d. neighbours cfg d = -1"
  shows "ask_neighbours cfg r c s = s"
proof -
  have "fold (\<lambda>(d, p). askAsync cfg d p) qs s = s" for qs
    using assms by (induction qs) (auto simp: askAsync_def)
  then show ?thesis by (simp add: ask_neighbours_fold)
qed

lemma isolated_iteration:
  assumes "\<forall>d. neighbours cfg d = -1" and "rows cfg \<noteq> 0" and "columns cfg \<noteq> 0"
    and "askRequests s = []"
  shows "\<exists>s'. iteration cfg e s = Inr s'"
proof (rule iteration_returns[OF assms(2,3)])
  show "await_answers cfg (polls e)
          (ask_neighbours cfg (rowPosition_of cfg e) (columnPosition_of cfg e)
             (emit (Proposal (rowPosition_of cfg e) (columnPosition_of cfg e)) s))
        = Inr (emit (Proposal (rowPosition_of cfg e) (columnPosition_of cfg e)) s)"
    using assms(4) by (simp add: isolated_calls[OF assms(1)] await_answers_none)
qed

lemma isolated_sampler:
  assumes "\<forall>d. neighbours cfg d = -1" and "rows cfg \<noteq> 0" and "columns cfg \<noteq> 0"
  shows "n \<le> length es \<Longrightarrow> askRequests s = [] \<Longrightarrow> \<exists>s'. sampler cfg n es s = Inr s'"
proof (induction n arbitrary: es s)
  case 0
  show ?case by simp
next
  case (Suc n)
  then obtain e es' where es: "es = e # es'" by (cases es) auto
  from isolated_iteration[OF assms Suc.prems(2)] obtain s1
    where it: "iteration cfg e s = Inr s1" by blast
  from Suc.IH[of es' s1] Suc.prems(1) iteration_requests[OF it] obtain s'
    where "sampler cfg n es' s1 = Inr s'" by (auto simp: es)
  with it show ?case by (simp add: es)
qed

lemma isolated_slave:
  assumes "\<forall>d. neighbours cfg d = -1" and "rows cfg \<noteq> 0" and "columns cfg \<noteq> 0"
    and "world_size - 1 \<noteq> 0"
    and "nat (TOTAL_ITERATIONS div (world_size - 1)) \<le> length (iteration_envs env)"
  shows "\<exists>s'. slave world_size cfg env = Inr s'"
proof -
  let ?s0 = "initializeAnswers cfg (start cfg (uninitialised env))"
  have "askRequests ?s0 = []" by (simp add: start_def)
  from isolated_sampler[OF assms(1,2,3) assms(5) this] obtain s
    where run: "sampler cfg (nat (TOTAL_ITERATIONS div (world_size - 1))) (iteration_envs env) ?s0 = Inr s"
    by blast
  have "finishedReqResCount s = 0"
    using sampler_count_fields[OF run] by (simp add: start_def)
  then have "finishedReqResCount (sendFinishedAll cfg s) = 0"
    using assms(1) by (simp add: sendFinishedAll_fields)
  then have "await_finished cfg (finish_polls env) (sendFinishedAll cfg s) = Inr (sendFinishedAll cfg s)"
    by (rule await_finished_none)
  then have "\<exists>s'. finish cfg (finish_polls env) s = Inr s'"
    by (simp add: finish_def)
  with run assms(4) show ?thesis
    by (auto simp: slave_def Let_def)
qed

section \<open>The iteration budget\<close>

text \<open>
  C6, as the specification states it, fails in its second half. With three processes
  there are two workers; each performs 2,500,000 iterations, so the proposals of all
  workers together are 5,000,000 and not 5,000,000 divided by the number of workers.
\<close>

theorem total_is_quotient_counterexample:
  "run_proposals (slave 3 cfg_ones env_long) = Inr 2500000
   \<and> (2500000::nat) + 2500000 \<noteq> 5000000 div (3 - 1)"
proof -
  have "\<exists>s'. slave 3 cfg_ones env_long = Inr s'"
    by (rule isolated_slave) (simp_all add: cfg_ones_def env_long_def TOTAL_ITERATIONS_def)
  then obtain s' where r: "slave 3 cfg_ones env_long = Inr s'" ..
  from slave_proposals[OF r] have "proposals (trace s') = 2500000"
    by (simp add: TOTAL_ITERATIONS_def)
  with r show ?thesis by (simp add: run_proposals_def)
qed

text \<open>
  C6, amended. Every worker performs exactly \<open>floor(5000000 / (world_size - 1))\<close>
  sampler iterations, where \<open>world_size - 1\<close> is the number of workers; the proposals
  of all workers together are that quotient times the number of workers.
\<close>

theorem worker_iteration_count:
  assumes "2 \<le> world_size"
    and "\<forall>rank\<in>{1 .. world_size - 1}. slave world_size (cfgs rank) (envs rank) = Inr (finals rank)"
  shows "(\<forall>rank\<in>{1 .. world_size - 1}.
            int (proposals (trace (finals rank))) = 5000000 div (world_size - 1))
         \<and> (\<Sum>rank = 1 .. world_size - 1. int (proposals (trace (finals rank))))
             = (world_size - 1) * (5000000 div (world_size - 1))"
proof -
  have each: "int (proposals (trace (finals rank))) = 5000000 div (world_size - 1)"
    if "rank \<in> {1 .. world_size - 1}" for rank
  proof -
    from assms(2) that have "slave world_size (cfgs rank) (envs rank) = Inr (finals rank)"
      by blast
    from slave_proposals[OF this] show ?thesis
      using assms(1) by (simp add: TOTAL_ITERATIONS_def pos_imp_zdiv_nonneg_iff)
  qed
  have "(\<Sum>rank = 1 .. world_size - 1. int (proposals (trace (finals rank))))
          = (\<Sum>rank = 1 .. world_size - 1. 5000000 div (world_size - 1))"
    by (rule sum.cong[OF refl]) (rule each)
  also have "\<dots> = (world_size - 1) * (5000000 div (world_size - 1))"
    using assms(1) by simp
  finally show ?thesis using each by blast
qed

theorem worker_iteration_count_witness:
  "(2::int) \<le> 5000001
   \<and> (\<exists>w. slave 5000001 cfg_top env_once = Inr w
          \<and> int (proposals (trace w)) = 1
          \<and> (\<Sum>rank = 1 .. (5000001::int) - 1. int (proposals (trace w))) = 5000000)"
proof -
  let ?s0 = "initializeAnswers cfg_top (start cfg_top no_handles)"
  have "\<exists>s. iteration cfg_top env_top_edge ?s0 = Inr s"
    by (simp add: iteration_def cfg_top_def env_top_edge_def Let_def split: sum.splits prod.splits)
       (simp add: ask_neighbours_def askAsync_def poll_done_def testAskAll_def
          askReqResCount_def Let_def)
  then obtain s where it: "iteration cfg_top env_top_edge ?s0 = Inr s" ..
  have cnt: "finishedReqResCount s = 0"
    using iteration_count_fields[OF it] by (simp add: start_def)
  have nb: "filter (\<lambda>d. neighbours cfg_top d \<noteq> -1) directions = [TOP]"
    by (simp add: directions_def cfg_top_def)
  have "\<exists>w. finish cfg_top [poll_done\<lparr>requestResult := False\<rparr>, poll_done] s = Inr w"
    by (simp add: finish_def sendFinishedAll_fields cnt nb poll_done_def Let_def)
  then obtain w where fin: "finish cfg_top [poll_done\<lparr>requestResult := False\<rparr>, poll_done] s = Inr w" ..
  have run: "slave 5000001 cfg_top env_once = Inr w"
    using it fin by (simp add: slave_def env_once_def TOTAL_ITERATIONS_def Let_def)
  have all: "\<forall>rank\<in>{1 .. (5000001::int) - 1}.
               slave 5000001 ((\<lambda>r. cfg_top) rank) ((\<lambda>r. env_once) rank) = Inr ((\<lambda>r. w) rank)"
    using run by simp
  have two: "(2::int) \<le> 5000001" by simp
  from worker_iteration_count[OF two all]
  have a: "int (proposals (trace w)) = 1"
    and b: "(\<Sum>rank = 1 .. (5000001::int) - 1. int (proposals (trace w))) = 5000000"
    by simp_all
  have "\<exists>w. slave 5000001 cfg_top env_once = Inr w
          \<and> int (proposals (trace w)) = 1
          \<and> (\<Sum>rank = 1 .. (5000001::int) - 1. int (proposals (trace w))) = 5000000"
    by (rule exI[of _ w]) (intro conjI run a b)
  with two show ?thesis by (rule conjI)
qed

section \<open>Reply sends in flight\<close>

lemma replies_in_flight_append [simp]:
  "replies_in_flight D (xs @ ys) = replies_in_flight D xs + replies_in_flight D ys"
  by (induction D xs rule: replies_in_flight.induct) simp_all

lemma reply_slot_ok_Nil [simp]: "reply_slot_ok D []"
  by (simp add: reply_slot_ok_def)

lemma reply_slot_ok_whole:
  assumes "reply_slot_ok D tr"
  shows "0 \<le> replies_in_flight D tr \<and> replies_in_flight D tr \<le> 1"
  using assms[unfolded reply_slot_ok_def, rule_format, of "length tr"] by simp

lemma reply_slot_ok_snoc:
  "reply_slot_ok D (tr @ [e]) \<longleftrightarrow>
     reply_slot_ok D tr \<and> 0 \<le> replies_in_flight D (tr @ [e]) \<and> replies_in_flight D (tr @ [e]) \<le> 1"
proof
  assume ok: "reply_slot_ok D (tr @ [e])"
  have "0 \<le> replies_in_flight D (take n tr) \<and> replies_in_flight D (take n tr) \<le> 1"
    if "n \<le> length tr" for n
    using ok[unfolded reply_slot_ok_def, rule_format, of n] that by simp
  then have "reply_slot_ok D tr"
    by (simp add: reply_slot_ok_def)
  with reply_slot_ok_whole[OF ok]
  show "reply_slot_ok D tr \<and> 0 \<le> replies_in_flight D (tr @ [e])
      \<and> replies_in_flight D (tr @ [e]) \<le> 1"
    by simp
next
  assume a: "reply_slot_ok D tr \<and> 0 \<le> replies_in_flight D (tr @ [e])
      \<and> replies_in_flight D (tr @ [e]) \<le> 1"
  show "reply_slot_ok D (tr @ [e])"
    unfolding reply_slot_ok_def
  proof (intro allI impI)
    fix n assume n: "n \<le> length (tr @ [e])"
    show "0 \<le> replies_in_flight D (take n (tr @ [e]))
        \<and> replies_in_flight D (take n (tr @ [e])) \<le> 1"
    proof (cases "n \<le> length tr")
      case True
      from a have "reply_slot_ok D tr" by simp
      from this[unfolded reply_slot_ok_def, rule_format, OF True] True
      show ?thesis by simp
    next
      case False
      with n have "n = Suc (length tr)" by simp
      with a show ?thesis by simp
    qed
  qed
qed

lemma quiet_call: "\<not> reply_call e \<Longrightarrow> replies_in_flight D [e] = 0"
  by (cases e) simp_all

lemma reply_slot_ok_quiet:
  "list_all (\<lambda>e. \<not> reply_call e) X \<Longrightarrow> reply_slot_ok D tr \<Longrightarrow>
     reply_slot_ok D (tr @ X) \<and> replies_in_flight D (tr @ X) = replies_in_flight D tr"
proof (induction X arbitrary: tr)
  case Nil
  then show ?case by simp
next
  case (Cons x X)
  have q: "replies_in_flight D [x] = 0" using Cons.prems(1) by (simp add: quiet_call)
  have step: "reply_slot_ok D (tr @ [x])"
    using Cons.prems(2) q reply_slot_ok_whole[OF Cons.prems(2)]
    by (simp add: reply_slot_ok_snoc)
  from Cons.IH[OF _ step] Cons.prems(1) q show ?case by simp
qed

lemma reply_inv_cong:
  "trace s' = trace s \<Longrightarrow> answerResponses s' = answerResponses s \<Longrightarrow>
     reply_inv cfg s' = reply_inv cfg s"
  by (simp add: reply_inv_def)

lemma reply_inv_quiet:
  assumes "extends (\<lambda>e. \<not> reply_call e) s s'" and "answerResponses s' = answerResponses s"
    and "reply_inv cfg s"
  shows "reply_inv cfg s'"
proof -
  from assms(1) obtain X where X: "trace s' = trace s @ X" "list_all (\<lambda>e. \<not> reply_call e) X"
    by (auto simp: extends_def)
  show ?thesis
    unfolding reply_inv_def
  proof
    fix D
    from assms(3) have ok: "reply_slot_ok D (trace s)"
      and eq: "replies_in_flight D (trace s)
                 = (if neighbours cfg D \<noteq> -1 \<and> answerResponses s D then 1 else 0)"
      by (simp_all add: reply_inv_def)
    from reply_slot_ok_quiet[OF X(2) ok] eq
    show "reply_slot_ok D (trace s') \<and>
          replies_in_flight D (trace s')
            = (if neighbours cfg D \<noteq> -1 \<and> answerResponses s' D then 1 else 0)"
      by (simp add: X(1) assms(2))
  qed
qed

lemma answer_direction_inv:
  assumes "reply_inv cfg s"
  shows "reply_inv cfg (answer_direction cfg arr d s)"
proof (cases "neighbours cfg d = -1 \<or> arr d = None")
  case True
  then show ?thesis using assms by (auto simp: answer_direction_def)
next
  case False
  then obtain p where p: "arr d = Some p" and nb: "neighbours cfg d \<noteq> -1" by auto
  show ?thesis
    unfolding reply_inv_def
  proof
    fix D
    from assms have ok: "reply_slot_ok D (trace s)"
      and eq: "replies_in_flight D (trace s)
                 = (if neighbours cfg D \<noteq> -1 \<and> answerResponses s D then 1 else 0)"
      by (simp_all add: reply_inv_def)
    have ok1: "reply_slot_ok D (trace s @ [PostQuestionRecv d])"
      using ok reply_slot_ok_whole[OF ok] by (simp add: reply_slot_ok_snoc)
    show "reply_slot_ok D (trace (answer_direction cfg arr d s)) \<and>
          replies_in_flight D (trace (answer_direction cfg arr d s))
            = (if neighbours cfg D \<noteq> -1 \<and> answerResponses (answer_direction cfg arr d s) D
               then 1 else 0)"
    proof (cases "answerResponses s d")
      case True
      have ok2: "reply_slot_ok D ((trace s @ [PostQuestionRecv d]) @ [WaitReply d])"
        by (subst reply_slot_ok_snoc) (use ok1 eq True nb in auto)
      have ok3: "reply_slot_ok D (((trace s @ [PostQuestionRecv d]) @ [WaitReply d])
                                   @ [SendAnswer d v])" for v
        by (subst reply_slot_ok_snoc) (use ok2 eq True nb in auto)
      show ?thesis
        using ok3 eq True nb p
        by (simp add: answer_direction_def initializeAnAnswer_def emit_def Let_def)
    next
      case False
      have ok3: "reply_slot_ok D ((trace s @ [PostQuestionRecv d]) @ [SendAnswer d v])" for v
        by (subst reply_slot_ok_snoc) (use ok1 eq False nb in auto)
      show ?thesis
        using ok3 eq False nb p
        by (simp add: answer_direction_def initializeAnAnswer_def emit_def Let_def)
    qed
  qed
qed

lemma answerAll_inv: "reply_inv cfg s \<Longrightarrow> reply_inv cfg (answerAll cfg arr s)"
proof -
  have "reply_inv cfg s \<Longrightarrow> reply_inv cfg (fold (answer_direction cfg arr) ds s)" for ds
    by (induction ds arbitrary: s) (simp_all add: answer_direction_inv)
  then show "reply_inv cfg s \<Longrightarrow> reply_inv cfg (answerAll cfg arr s)"
    by (simp add: answerAll_def)
qed

lemma await_answers_inv:
  "await_answers cfg ps s = Inr s' \<Longrightarrow> reply_inv cfg s \<Longrightarrow> reply_inv cfg s'"
proof (induction ps arbitrary: s)
  case Nil
  then show ?case by (simp split: if_splits)
next
  case (Cons p ps)
  show ?case
  proof (cases "testAskAll s p")
    case True
    with Cons.prems show ?thesis by simp
  next
    case False
    with Cons.prems(1) have "await_answers cfg ps (answerAll cfg (arrivals p) s) = Inr s'" by simp
    from Cons.IH[OF this answerAll_inv[OF Cons.prems(2)]] show ?thesis .
  qed
qed

lemma asking_quiet: "asking e \<Longrightarrow> \<not> reply_call e"
  by (cases e) simp_all

lemma iteration_inv:
  assumes "iteration cfg e s = Inr s'" and "reply_inv cfg s"
  shows "reply_inv cfg s'"
proof -
  let ?r = "rowPosition_of cfg e" and ?c = "columnPosition_of cfg e"
  let ?s0 = "emit (Proposal ?r ?c) s"
  let ?s1 = "ask_neighbours cfg ?r ?c ?s0"
  from assms(1) have nz: "\<not> (rows cfg = 0 \<or> columns cfg = 0)"
    by (auto simp: iteration_def)
  from assms(1) nz obtain s2 where a: "await_answers cfg (polls e) ?s1 = Inr s2"
    by (cases "await_answers cfg (polls e) ?s1")
       (simp_all add: iteration_def Let_def rowPosition_of_def columnPosition_of_def)
  from assms(1) nz a have t: "trace s' = trace s2" "answerResponses s' = answerResponses s2"
    by (auto simp: iteration_def Let_def rowPosition_of_def columnPosition_of_def askResult_def
          flip_def split: if_splits)
  have "extends (\<lambda>e. \<not> reply_call e) s ?s0"
    by (rule extends_emit) simp
  moreover have "extends (\<lambda>e. \<not> reply_call e) ?s0 ?s1"
    unfolding ask_neighbours_fold
    by (rule extends_mono[OF fold_askAsync_extends]) (rule asking_quiet)
  ultimately have "extends (\<lambda>e. \<not> reply_call e) s ?s1"
    by (rule extends_trans)
  moreover have "answerResponses ?s1 = answerResponses s"
    by (simp add: ask_neighbours_fold)
  ultimately have "reply_inv cfg ?s1"
    using assms(2) by (rule reply_inv_quiet)
  then have "reply_inv cfg s2"
    by (rule await_answers_inv[OF a])
  then show ?thesis
    by (simp add: reply_inv_cong[OF t])
qed

lemma sampler_inv:
  "sampler cfg n es s = Inr s' \<Longrightarrow> reply_inv cfg s \<Longrightarrow> reply_inv cfg s'"
proof (induction cfg n es s rule: sampler.induct)
  case (1 cfg es s)
  then show ?case by simp
next
  case (2 cfg n s)
  then show ?case by simp
next
  case (3 cfg n e es s)
  from "3.prems"(1) obtain s1 where it: "iteration cfg e s = Inr s1"
    and rest: "sampler cfg n es s1 = Inr s'"
    by (auto split: sum.splits)
  show ?case
    using "3.IH"[OF it rest iteration_inv[OF it "3.prems"(2)]] .
qed

lemma initializeAnswers_responses:
  "answerResponses (initializeAnswers cfg s) D
     = (if neighbours cfg D \<noteq> -1 then False else answerResponses s D)"
proof -
  have "answerResponses (fold (\<lambda>d s. if neighbours cfg d = -1 then s
          else (initializeAnAnswer d s)\<lparr>answerResponses := (answerResponses s)(d := False)\<rparr>) ds s) D
        = (if D \<in> set ds \<and> neighbours cfg D \<noteq> -1 then False else answerResponses s D)" for ds
    by (induction ds arbitrary: s) (auto simp: initializeAnAnswer_def emit_def)
  then show ?thesis by (simp add: initializeAnswers_def set_directions)
qed

lemma answering_posts_quiet:
  "list_all (\<lambda>e. \<exists>d. e = PostQuestionRecv d) X \<Longrightarrow> list_all (\<lambda>e. \<not> reply_call e) X"
  by (auto simp: list_all_iff)

lemma initializeAnswers_posts:
  "\<exists>X. trace (initializeAnswers cfg s) = trace s @ X \<and> list_all (\<lambda>e. \<exists>d. e = PostQuestionRecv d) X"
proof -
  have "\<exists>X. trace (fold (\<lambda>d s. if neighbours cfg d = -1 then s
          else (initializeAnAnswer d s)\<lparr>answerResponses := (answerResponses s)(d := False)\<rparr>) ds s)
          = trace s @ X \<and> list_all (\<lambda>e. \<exists>d. e = PostQuestionRecv d) X" for ds
  proof (induction ds arbitrary: s)
    case Nil
    show ?case by simp
  next
    case (Cons d ds)
    let ?s1 = "if neighbours cfg d = -1 then s
          else (initializeAnAnswer d s)\<lparr>answerResponses := (answerResponses s)(d := False)\<rparr>"
    from Cons.IH[of ?s1] obtain X where X: "trace (fold (\<lambda>d s. if neighbours cfg d = -1 then s
          else (initializeAnAnswer d s)\<lparr>answerResponses := (answerResponses s)(d := False)\<rparr>) ds ?s1)
          = trace ?s1 @ X" "list_all (\<lambda>e. \<exists>d. e = PostQuestionRecv d) X"
      by blast
    show ?case
    proof (cases "neighbours cfg d = -1")
      case True
      with X show ?thesis by auto
    next
      case False
      with X show ?thesis
        by (intro exI[of _ "PostQuestionRecv d # X"]) (simp add: initializeAnAnswer_def emit_def)
    qed
  qed
  then show ?thesis by (simp add: initializeAnswers_def)
qed

lemma start_inv: "reply_inv cfg (initializeAnswers cfg (start cfg u))"
proof -
  let ?s = "initializeAnswers cfg (start cfg u)"
  from initializeAnswers_posts[of cfg "start cfg u"] obtain X
    where X: "trace ?s = X" "list_all (\<lambda>e. \<exists>d. e = PostQuestionRecv d) X"
    by (auto simp: start_def)
  have q: "list_all (\<lambda>e. \<not> reply_call e) X"
    by (rule answering_posts_quiet[OF X(2)])
  show ?thesis
    unfolding reply_inv_def
  proof
    fix D
    from reply_slot_ok_quiet[OF q reply_slot_ok_Nil, of D]
    show "reply_slot_ok D (trace ?s) \<and>
          replies_in_flight D (trace ?s)
            = (if neighbours cfg D \<noteq> -1 \<and> answerResponses ?s D then 1 else 0)"
      by (simp add: X(1) initializeAnswers_responses)
  qed
qed

lemma await_finished_inv:
  "await_finished cfg ps s = Inr s' \<Longrightarrow> reply_inv cfg s \<Longrightarrow> reply_inv cfg s'"
proof (induction ps arbitrary: s)
  case Nil
  then show ?case by (simp split: if_splits)
next
  case (Cons p ps)
  let ?t = "TestFinished (requestResult p) (responseResult p)"
  have t: "reply_inv cfg (emit ?t s)"
    by (rule reply_inv_quiet[OF extends_emit _ Cons.prems(2)]) simp_all
  have sv: "reply_inv cfg (emit Service (emit ?t s))"
    by (rule reply_inv_quiet[OF extends_emit _ t]) simp_all
  show ?case
  proof (cases "0 < finishedReqResCount s")
    case False
    with Cons.prems show ?thesis by simp
  next
    case True
    show ?thesis
    proof (cases "requestResult p \<and> responseResult p")
      case True
      with \<open>0 < finishedReqResCount s\<close> Cons.prems(1) have "s' = emit ?t s"
        by (simp add: Let_def)
      with t show ?thesis by simp
    next
      case False
      with \<open>0 < finishedReqResCount s\<close> Cons.prems(1)
      have "await_finished cfg ps (answerAll cfg (arrivals p) (emit Service (emit ?t s))) = Inr s'"
        by (auto simp: Let_def)
      from Cons.IH[OF this answerAll_inv[OF sv]] show ?thesis .
    qed
  qed
qed

lemma finish_inv:
  assumes "finish cfg ps s = Inr s'" and "reply_inv cfg s"
  shows "reply_inv cfg s'"
proof -
  let ?s1 = "sendFinishedAll cfg s"
  from assms(1) obtain s2 where w: "await_finished cfg ps ?s1 = Inr s2"
    and s': "s' = sendFinalRows cfg s2"
    by (auto simp: finish_def split: sum.splits)
  have "extends (\<lambda>e. \<not> reply_call e) s ?s1"
    by (auto simp: extends_def sendFinishedAll_fields finished_posts_def list_all_iff)
  then have "reply_inv cfg ?s1"
    using _ assms(2) by (rule reply_inv_quiet) (simp add: sendFinishedAll_fields)
  then have i2: "reply_inv cfg s2"
    by (rule await_finished_inv[OF w])
  have "extends (\<lambda>e. \<not> reply_call e) s2 s'"
    by (auto simp: extends_def s' sendFinalRows_fields final_rows_def list_all_iff)
  then show ?thesis
    using _ i2 by (rule reply_inv_quiet) (simp add: s' sendFinalRows_fields)
qed

text \<open>
  C7. In a run of the worker, at every moment and for every direction, the reply
  sends posted and not yet waited for number 0 or 1: between two ANSWER sends in a
  direction the worker has waited for the earlier one and cleared its handle.
\<close>

theorem one_reply_in_flight:
  assumes "slave world_size cfg env = Inr s"
  shows "\<forall>n\<le>length (trace s).
           0 \<le> replies_in_flight D (take n (trace s)) \<and> replies_in_flight D (take n (trace s)) \<le> 1"
proof -
  from assms obtain s1
    where run: "sampler cfg (nat (TOTAL_ITERATIONS div (world_size - 1))) (iteration_envs env)
                  (initializeAnswers cfg (start cfg (uninitialised env))) = Inr s1"
      and fin: "finish cfg (finish_polls env) s1 = Inr s"
    by (rule slave_phases)
  have "reply_inv cfg s"
    by (rule finish_inv[OF fin sampler_inv[OF run start_inv]])
  then have "reply_slot_ok D (trace s)"
    by (simp add: reply_inv_def)
  then show ?thesis
    by (simp add: reply_slot_ok_def)
qed
section \<open>A run that answers while it waits\<close>

lemma summer_tile22:
  "summer tile22 2 2 (- 1) 0 = 2" "summer tile22 2 2 (- 1) 1 = 2" "summer tile22 2 2 0 1 = 1"
  "summer [[1, - 1], [- 1, 1]] 2 2 (- 1) 1 = 0"
  by code_simp+

lemma busy_trace:
  "map_sum id trace (slave 5000001 cfg_top env_busy) =
     Inr [PostQuestionRecv TOP, Proposal 0 1, SendQuestion TOP 1, PostAnswerRecv TOP,
          PostQuestionRecv TOP, SendAnswer TOP 2,
          PostQuestionRecv TOP, WaitReply TOP, SendAnswer TOP 2,
          SendFinished TOP, PostFinishedRecv TOP,
          TestFinished True False, Service, PostQuestionRecv TOP, WaitReply TOP, SendAnswer TOP 0,
          TestFinished True True,
          SendFinalRow 0 [1, - 1], SendFinalRow 1 [- 1, 1]]"
  by (simp add: slave_def finish_def sendFinalRows_def sendFinishedAll_def iteration_def
        ask_neighbours_def askAsync_def askResult_def answerAll_def answer_direction_def
        initializeAnswers_def initializeAnAnswer_def emit_def start_def testAskAll_def
        askReqResCount_def directions_def flip_def log_le_def randomProbability_def
        exact_arith_def deltaE_of_def TOTAL_ITERATIONS_def Let_def summer_tile22 rowPosition_of_def columnPosition_of_def
        cfg_top_def env_busy_def env_answering_def poll_question_def
        poll_done_def no_handles_def upto.simps tile22_def[symmetric])
     (simp add: tile22_def summer_tile22)

lemma busy_run:
  obtains w where "slave 5000001 cfg_top env_busy = Inr w"
    and "trace w =
      [PostQuestionRecv TOP, Proposal 0 1, SendQuestion TOP 1, PostAnswerRecv TOP,
       PostQuestionRecv TOP, SendAnswer TOP 2,
       PostQuestionRecv TOP, WaitReply TOP, SendAnswer TOP 2,
       SendFinished TOP, PostFinishedRecv TOP,
       TestFinished True False, Service, PostQuestionRecv TOP, WaitReply TOP, SendAnswer TOP 0,
       TestFinished True True,
       SendFinalRow 0 [1, - 1], SendFinalRow 1 [- 1, 1]]"
  using busy_trace by (cases "slave 5000001 cfg_top env_busy") simp_all

theorem one_reply_in_flight_witness:
  "\<exists>w. slave 5000001 cfg_top env_busy = Inr w
      \<and> answers_sent TOP (trace w) = [2, 2, 0]
      \<and> replies_in_flight TOP (take 6 (trace w)) = 1
      \<and> replies_in_flight TOP (take 8 (trace w)) = 0
      \<and> replies_in_flight TOP (take 9 (trace w)) = 1
      \<and> (\<forall>n\<le>length (trace w).
            0 \<le> replies_in_flight TOP (take n (trace w))
            \<and> replies_in_flight TOP (take n (trace w)) \<le> 1)"
proof -
  obtain w where run: "slave 5000001 cfg_top env_busy = Inr w"
    and tr: "trace w =
      [PostQuestionRecv TOP, Proposal 0 1, SendQuestion TOP 1, PostAnswerRecv TOP,
       PostQuestionRecv TOP, SendAnswer TOP 2,
       PostQuestionRecv TOP, WaitReply TOP, SendAnswer TOP 2,
       SendFinished TOP, PostFinishedRecv TOP,
       TestFinished True False, Service, PostQuestionRecv TOP, WaitReply TOP, SendAnswer TOP 0,
       TestFinished True True,
       SendFinalRow 0 [1, - 1], SendFinalRow 1 [- 1, 1]]"
    by (rule busy_run)
  have a: "answers_sent TOP (trace w) = [2, 2, 0]"
    "replies_in_flight TOP (take 6 (trace w)) = 1"
    "replies_in_flight TOP (take 8 (trace w)) = 0"
    "replies_in_flight TOP (take 9 (trace w)) = 1"
    by (simp_all add: tr)
  from one_reply_in_flight[OF run, of TOP] run a show ?thesis by blast
qed

section \<open>Leaving only after the handshake\<close>




section \<open>The coordinator's check of the row count\<close>

text \<open>
  C9 on the code. With four processes there are three workers, and the 8 rows of the
  image are not divisible by 3. The coordinator writes nothing to the standard error:
  its \<^verbatim>\<open>rowCount\<close> is 0, so the divisibility test is false. It sends the topology with
  0 rows to every worker and then divides by \<^verbatim>\<open>rowsPerSlave = 0\<close>.
\<close>

theorem indivisible_rows_go_unreported:
  "N mod (4 - 1) \<noteq> 0
   \<and> errors (main_master 5 4 True) = []
   \<and> ending (main_master 5 4 True) = Traps
   \<and> take 2 (calls (main_master 5 4 True)) = [SendInt 1 ROWS 0, SendInt 1 COLUMNS 0]"
  by (simp add: main_master_def master_def N_def Let_def topology_calls_def upto.simps)

lemma row_error_never_raised:
  "errors (master world_size True) = []"
  by (simp add: master_def Let_def)

end
